theory Spec2Isabelle
  imports Complex_Main "HOL-Library.Monad_Syntax"
begin

section \<open>Data model (types.ts)\<close>

text \<open>
  Numbers are modelled as exact reals. An operation whose JavaScript result would not be
  a finite number (a division by zero, the square root of a negative number, the
  logarithm of a non-positive number, \<open>Math.min()\<close> or \<open>Math.max()\<close> of nothing) and a
  property read on \<open>undefined\<close> are the value \<open>None\<close>; every function that uses one of
  them returns an \<open>option\<close> and propagates \<open>None\<close>. The section on double precision
  reads \<open>calculatePearson\<close> a second time, with the rounding of IEEE 754 doubles.
\<close>

record DataPoint =
  wavelength :: real
  absorption :: real

record WaterSample =
  id_s :: string
  name :: string
  data :: "DataPoint list"
  color :: string

datatype NormalizationMethod = none | area | minmax

record SimilarityResult =
  sampleA :: string
  sampleB :: string
  pearson :: real
  rmse :: real
  euclidean :: real
  cosine :: real
  sid :: real

text \<open>The element type \<open>{ x: number; yA: number; yB: number }\<close> of the aligned sequence;
  the field \<open>x\<close> is called \<open>px\<close> here.\<close>

record AlignedPair =
  px :: real
  yA :: real
  yB :: real

section \<open>Partial arithmetic\<close>

definition js_div :: "real \<Rightarrow> real \<Rightarrow> real option" where
  "js_div a b = (if b = 0 then None else Some (a / b))"

definition Math_sqrt :: "real \<Rightarrow> real option" where
  "Math_sqrt a = (if a < 0 then None else Some (sqrt a))"

definition Math_log :: "real \<Rightarrow> real option" where
  "Math_log a = (if a \<le> 0 then None else Some (ln a))"

fun Math_min :: "real list \<Rightarrow> real option" where
  "Math_min [] = None"
| "Math_min (v # vs) = Some (fold min vs v)"

fun Math_max :: "real list \<Rightarrow> real option" where
  "Math_max [] = None"
| "Math_max (v # vs) = Some (fold max vs v)"

section \<open>Smoother (applyMovingAverage)\<close>

text \<open>The inner loop over \<open>j\<close> from \<open>i - half\<close> to \<open>i + half\<close>, with the pair
  \<open>(sum, count)\<close> as its state.\<close>

definition window_acc :: "real list \<Rightarrow> int \<Rightarrow> real \<times> nat \<Rightarrow> real \<times> nat" where
  "window_acc values j = (\<lambda>(sum, count).
     if j \<ge> 0 \<and> j < int (length values) then (sum + values ! nat j, count + 1)
     else (sum, count))"

definition window_loop :: "real list \<Rightarrow> int \<Rightarrow> int \<Rightarrow> real \<times> nat" where
  "window_loop values i half = fold (window_acc values) [i - half..i + half] (0, 0)"

definition applyMovingAverage :: "real list \<Rightarrow> int \<Rightarrow> real list option" where
  "applyMovingAverage values window =
     (if window \<le> 1 \<or> length values = 0 then Some values
      else
        let half = window div 2
        in those (map (\<lambda>i. (\<lambda>(sum, count). js_div sum (real count))
                                (window_loop values (int i) half))
                      [0..<length values]))"

section \<open>Aligner (getOverlapData)\<close>

fun findIndexFrom :: "('a \<Rightarrow> bool) \<Rightarrow> 'a list \<Rightarrow> int \<Rightarrow> int" where
  "findIndexFrom P [] k = -1"
| "findIndexFrom P (p # ps) k = (if P p then k else findIndexFrom P ps (k + 1))"

definition findIndex :: "('a \<Rightarrow> bool) \<Rightarrow> 'a list \<Rightarrow> int" where
  "findIndex P xs = findIndexFrom P xs 0"

definition interpolate :: "DataPoint list \<Rightarrow> real \<Rightarrow> real option" where
  "interpolate dat targetW =
     (if dat = [] then None
      else
        let idx = findIndex (\<lambda>p. wavelength p \<ge> targetW) dat
        in if idx \<le> 0 then Some (absorption (dat ! 0))
           else if idx \<ge> int (length dat) then Some (absorption (dat ! (length dat - 1)))
           else
             let p1 = dat ! nat (idx - 1);
                 p2 = dat ! nat idx
             in do {
                  t \<leftarrow> js_div (targetW - wavelength p1) (wavelength p2 - wavelength p1);
                  Some (absorption p1 + t * (absorption p2 - absorption p1))
                })"

definition step :: real where
  "step = 0.5"

function overlap_loop ::
  "DataPoint list \<Rightarrow> DataPoint list \<Rightarrow> real \<Rightarrow> real \<Rightarrow> AlignedPair list
     \<Rightarrow> AlignedPair list option" where
  "overlap_loop dataA dataB maxW w common =
     (if w \<le> maxW then
        (case interpolate dataA w of
           None \<Rightarrow> None
         | Some a \<Rightarrow>
             (case interpolate dataB w of
                None \<Rightarrow> None
              | Some b \<Rightarrow>
                  overlap_loop dataA dataB maxW (w + step)
                    (common @ [\<lparr>px = w, yA = a, yB = b\<rparr>])))
      else Some common)"
  by pat_completeness auto
termination
proof (relation "measure (\<lambda>(dataA, dataB, maxW, w, common). nat (\<lfloor>2 * (maxW - w)\<rfloor> + 1))")
  show "wf (measure (\<lambda>(dataA, dataB, maxW, w, common). nat (\<lfloor>2 * (maxW - w)\<rfloor> + 1)))"
    by simp
next
  fix dataA dataB :: "DataPoint list" and maxW w :: real and common :: "AlignedPair list"
    and a b :: real
  assume le: "w \<le> maxW"
  have "\<lfloor>2 * (maxW - (w + step))\<rfloor> = \<lfloor>2 * (maxW - w)\<rfloor> - 1"
  proof -
    have "2 * (maxW - (w + step)) = 2 * (maxW - w) - 1"
      by (simp add: step_def)
    then show ?thesis
      by (simp only: floor_diff_one)
  qed
  moreover have "0 \<le> \<lfloor>2 * (maxW - w)\<rfloor>"
    using le by simp
  ultimately show
    "((dataA, dataB, maxW, w + step, common @ [\<lparr>px = w, yA = a, yB = b\<rparr>]),
      (dataA, dataB, maxW, w, common))
     \<in> measure (\<lambda>(dataA, dataB, maxW, w, common). nat (\<lfloor>2 * (maxW - w)\<rfloor> + 1))"
    by simp
qed

declare overlap_loop.simps [simp del]

definition getOverlapData :: "DataPoint list \<Rightarrow> DataPoint list \<Rightarrow> AlignedPair list option" where
  "getOverlapData dataA dataB =
     (if length dataA = 0 \<or> length dataB = 0 then Some []
      else
        let minW = max (wavelength (dataA ! 0)) (wavelength (dataB ! 0));
            maxW = min (wavelength (dataA ! (length dataA - 1)))
                       (wavelength (dataB ! (length dataB - 1)))
        in overlap_loop dataA dataB maxW minW [])"

section \<open>Normalizer (normalizeValues)\<close>

definition normalizeValues :: "real list \<Rightarrow> NormalizationMethod \<Rightarrow> real list option" where
  "normalizeValues values method =
     (if method = none \<or> length values = 0 then Some values
      else if method = area then
        (let sum = foldl (\<lambda>a b. a + \<bar>b\<bar>) 0 values
         in if sum = 0 then Some values else those (map (\<lambda>v. js_div v sum) values))
      else if method = minmax then
        do {
          mn \<leftarrow> Math_min values;
          mx \<leftarrow> Math_max values;
          let range = mx - mn;
          if range = 0 then Some (map (\<lambda>v. 0) values)
          else those (map (\<lambda>v. js_div (v - mn) range) values)
        }
      else Some values)"

section \<open>Similarity engine\<close>

definition calculatePearson :: "AlignedPair list \<Rightarrow> real option" where
  "calculatePearson common =
     (let n = length common
      in if n < 2 then Some 0
         else
           let sumA = foldl (\<lambda>s p. s + yA p) 0 common;
               sumB = foldl (\<lambda>s p. s + yB p) 0 common;
               sumASq = foldl (\<lambda>s p. s + yA p * yA p) 0 common;
               sumBSq = foldl (\<lambda>s p. s + yB p * yB p) 0 common;
               sumProd = foldl (\<lambda>s p. s + yA p * yB p) 0 common;
               num = real n * sumProd - sumA * sumB
           in do {
                den \<leftarrow> Math_sqrt ((real n * sumASq - sumA * sumA) * (real n * sumBSq - sumB * sumB));
                if den = 0 then Some 0 else js_div num den
              })"

definition calculateRMSE :: "AlignedPair list \<Rightarrow> NormalizationMethod \<Rightarrow> real option" where
  "calculateRMSE common method =
     (let n = length common
      in if n = 0 then Some 0
         else do {
           normA \<leftarrow> normalizeValues (map yA common) method;
           normB \<leftarrow> normalizeValues (map yB common) method;
           let sumSq = fold (\<lambda>i s. s + (normA ! i - normB ! i)\<^sup>2) [0..<n] 0;
           q \<leftarrow> js_div sumSq (real n);
           Math_sqrt q
         })"

definition calculateEuclidean :: "AlignedPair list \<Rightarrow> NormalizationMethod \<Rightarrow> real option" where
  "calculateEuclidean common method =
     (if length common = 0 then Some 0
      else do {
        normA \<leftarrow> normalizeValues (map yA common) method;
        normB \<leftarrow> normalizeValues (map yB common) method;
        let sumSqDiff = foldl (\<lambda>s (i, val). s + (val - normB ! i)\<^sup>2) 0 (enumerate 0 normA);
        Math_sqrt sumSqDiff
      })"

definition calculateCosineSimilarity :: "AlignedPair list \<Rightarrow> real option" where
  "calculateCosineSimilarity common =
     (let dotProduct = foldl (\<lambda>s p. s + yA p * yB p) 0 common
      in do {
           magA \<leftarrow> Math_sqrt (foldl (\<lambda>s p. s + yA p * yA p) 0 common);
           magB \<leftarrow> Math_sqrt (foldl (\<lambda>s p. s + yB p * yB p) 0 common);
           if magA = 0 \<or> magB = 0 then Some 0 else js_div dotProduct (magA * magB)
         })"

definition sid_term :: "real list \<Rightarrow> real list \<Rightarrow> nat \<Rightarrow> real option" where
  "sid_term p q i =
     do {
       lp \<leftarrow> Math_log (p ! i);
       lq \<leftarrow> Math_log (q ! i);
       Some ((p ! i - q ! i) * (lp - lq))
     }"

fun sid_loop :: "real list \<Rightarrow> real list \<Rightarrow> nat list \<Rightarrow> real \<Rightarrow> real option" where
  "sid_loop p q [] acc = Some acc"
| "sid_loop p q (i # is) acc =
     (case sid_term p q i of
        None \<Rightarrow> None
      | Some d \<Rightarrow> sid_loop p q is (acc + d))"

definition calculateSID :: "AlignedPair list \<Rightarrow> real option" where
  "calculateSID common =
     do {
       p \<leftarrow> normalizeValues (map (\<lambda>cp. max (1 / 10 ^ 10) (yA cp)) common) area;
       q \<leftarrow> normalizeValues (map (\<lambda>cp. max (1 / 10 ^ 10) (yB cp)) common) area;
       sid_loop p q [0..<length p] 0
     }"

section \<open>Report assembler (similarityMatrix)\<close>

definition MAX_ALLOWED_WAVELENGTH :: real where
  "MAX_ALLOWED_WAVELENGTH = 300"

text \<open>A loop over a list whose body can fail: the state is threaded through the body,
  and the first \<open>None\<close> ends the loop.\<close>

fun for_each :: "('a \<Rightarrow> 's \<Rightarrow> 's option) \<Rightarrow> 'a list \<Rightarrow> 's \<Rightarrow> 's option" where
  "for_each body [] s = Some s"
| "for_each body (x # xs) s =
     (case body x s of
        None \<Rightarrow> None
      | Some s' \<Rightarrow> for_each body xs s')"

text \<open>The optional smoothing of the two value sequences of the surviving points, and
  their positional re-pairing (\<open>smoothedFilteredCommon\<close>).\<close>

definition smoothedFilteredCommon ::
  "AlignedPair list \<Rightarrow> bool \<Rightarrow> int \<Rightarrow> AlignedPair list option" where
  "smoothedFilteredCommon filteredCommon smoothingEnabled smoothingWindow =
     do {
       ya \<leftarrow> (if smoothingEnabled
              then applyMovingAverage (map yA filteredCommon) smoothingWindow
              else Some (map yA filteredCommon));
       yb \<leftarrow> (if smoothingEnabled
              then applyMovingAverage (map yB filteredCommon) smoothingWindow
              else Some (map yB filteredCommon));
       Some (map (\<lambda>(idx, p). p\<lparr>yA := ya ! idx, yB := yb ! idx\<rparr>) (enumerate 0 filteredCommon))
     }"

text \<open>The body of \<open>if (filteredCommon.length > 0)\<close>: the entry pushed for one pair.\<close>

definition pair_result ::
  "string \<Rightarrow> string \<Rightarrow> AlignedPair list \<Rightarrow> NormalizationMethod \<Rightarrow> bool \<Rightarrow> int
     \<Rightarrow> SimilarityResult option" where
  "pair_result nameA nameB filteredCommon normMethod smoothingEnabled smoothingWindow =
     (let calcMethod = (if normMethod = none then area else normMethod)
      in do {
           sfc \<leftarrow> smoothedFilteredCommon filteredCommon smoothingEnabled smoothingWindow;
           pe \<leftarrow> calculatePearson sfc;
           rm \<leftarrow> calculateRMSE sfc calcMethod;
           eu \<leftarrow> calculateEuclidean sfc calcMethod;
           co \<leftarrow> calculateCosineSimilarity sfc;
           si \<leftarrow> calculateSID sfc;
           Some \<lparr>sampleA = nameA, sampleB = nameB, pearson = pe, rmse = rm,
                 euclidean = eu, cosine = co, sid = si\<rparr>
         })"

text \<open>The body of the inner loop, for the samples at \<open>i\<close> and \<open>j\<close>, with \<open>results\<close> as
  its state.\<close>

definition pair_step ::
  "WaterSample \<Rightarrow> WaterSample \<Rightarrow> real \<Rightarrow> real \<Rightarrow> NormalizationMethod \<Rightarrow> bool \<Rightarrow> int
     \<Rightarrow> SimilarityResult list \<Rightarrow> SimilarityResult list option" where
  "pair_step sA sB rangeMin rangeMax normMethod smoothingEnabled smoothingWindow results =
     do {
       common \<leftarrow> getOverlapData (data sA) (data sB);
       let filteredCommon =
             filter (\<lambda>p. px p \<ge> rangeMin \<and> px p \<le> min rangeMax MAX_ALLOWED_WAVELENGTH) common;
       if length filteredCommon > 0 then
         do {
           r \<leftarrow> pair_result (name sA) (name sB) filteredCommon normMethod
                  smoothingEnabled smoothingWindow;
           Some (results @ [r])
         }
       else Some results
     }"

definition similarityMatrix ::
  "WaterSample list \<Rightarrow> real \<Rightarrow> real \<Rightarrow> NormalizationMethod \<Rightarrow> bool \<Rightarrow> int
     \<Rightarrow> SimilarityResult list option" where
  "similarityMatrix samples rangeMin rangeMax normMethod smoothingEnabled smoothingWindow =
     for_each
       (\<lambda>i. for_each
              (\<lambda>j. pair_step (samples ! i) (samples ! j) rangeMin rangeMax normMethod
                     smoothingEnabled smoothingWindow)
              [i + 1..<length samples])
       [0..<length samples] []"

section \<open>Double precision\<close>

text \<open>
  JavaScript numbers are IEEE 754 doubles: every arithmetic operation returns the exact
  result rounded to the nearest double, ties to the even mantissa. Here a double is the
  real number it denotes. \<open>NaN\<close> is the result of an invalid operation; \<open>Overflowed\<close>
  says that a result was plus or minus \<open>Infinity\<close>, after which the computation is not
  followed any further.
\<close>

datatype js_number = Num real | NaN | Overflowed

fun on_number :: "js_number \<Rightarrow> (real \<Rightarrow> js_number) \<Rightarrow> js_number" where
  "on_number (Num x) f = f x"
| "on_number NaN f = NaN"
| "on_number Overflowed f = Overflowed"

definition round_half_even :: "real \<Rightarrow> int" where
  "round_half_even m =
     (let f = \<lfloor>m\<rfloor>
      in if m - of_int f < 1 / 2 then f
         else if 1 / 2 < m - of_int f then f + 1
         else if even f then f else f + 1)"

text \<open>The exponent \<open>e\<close> with \<open>2^e \<le> x < 2^(e+1)\<close>, found in at most \<open>k\<close> halvings or
  doublings.\<close>

fun binade :: "nat \<Rightarrow> real \<Rightarrow> int" where
  "binade 0 x = 0"
| "binade (Suc k) x =
     (if 2 \<le> x then binade k (x / 2) + 1
      else if x < 1 then binade k (2 * x) - 1
      else 0)"

text \<open>Rounding to the nearest double: 53 significant bits at the exponent of \<open>x\<close>, which
  is not taken below \<open>-1022\<close> (subnormal numbers), and overflow from \<open>2^1024\<close> on.\<close>

definition fl :: "real \<Rightarrow> js_number" where
  "fl x =
     (let e = max (binade 1100 \<bar>x\<bar>) (- 1022);
          q = 2 powi (e - 52);
          y = of_int (round_half_even (x / q)) * q
      in if 2 ^ 1024 \<le> \<bar>y\<bar> then Overflowed else Num y)"

text \<open>\<open>reduce\<close> with a start value, and \<open>calculatePearson\<close> with every operation rounded, in
  the order in which the code evaluates them. The aligned values are taken to be
  doubles.\<close>

fun reduce_double :: "(real \<Rightarrow> 'a \<Rightarrow> js_number) \<Rightarrow> 'a list \<Rightarrow> real \<Rightarrow> js_number" where
  "reduce_double f [] s = Num s"
| "reduce_double f (p # ps) s = on_number (f s p) (reduce_double f ps)"

definition calculatePearson_double :: "AlignedPair list \<Rightarrow> js_number" where
  "calculatePearson_double common =
     (let n = length common
      in if n < 2 then Num 0
         else
           on_number (reduce_double (\<lambda>s p. fl (s + yA p)) common 0) (\<lambda>sumA.
           on_number (reduce_double (\<lambda>s p. fl (s + yB p)) common 0) (\<lambda>sumB.
           on_number (reduce_double (\<lambda>s p. on_number (fl (yA p * yA p)) (\<lambda>sq. fl (s + sq))) common 0) (\<lambda>sumASq.
           on_number (reduce_double (\<lambda>s p. on_number (fl (yB p * yB p)) (\<lambda>sq. fl (s + sq))) common 0) (\<lambda>sumBSq.
           on_number (reduce_double (\<lambda>s p. on_number (fl (yA p * yB p)) (\<lambda>pr. fl (s + pr))) common 0) (\<lambda>sumProd.
           on_number (on_number (fl (real n * sumProd)) (\<lambda>a.
                      on_number (fl (sumA * sumB)) (\<lambda>b. fl (a - b)))) (\<lambda>num.
           on_number (on_number (fl (real n * sumASq)) (\<lambda>a.
                      on_number (fl (sumA * sumA)) (\<lambda>b. fl (a - b)))) (\<lambda>spreadA.
           on_number (on_number (fl (real n * sumBSq)) (\<lambda>a.
                      on_number (fl (sumB * sumB)) (\<lambda>b. fl (a - b)))) (\<lambda>spreadB.
           on_number (fl (spreadA * spreadB)) (\<lambda>radicand.
           on_number (if radicand < 0 then NaN else fl (sqrt radicand)) (\<lambda>den.
           if den = 0 then Num 0 else fl (num / den))))))))))))"

section \<open>Notions of the specification\<close>

text \<open>The specification speaks of the variance and the magnitude of a series, and of
  swapping the two series of an aligned sequence. These three definitions follow its
  words; they are not part of the code.\<close>

definition mean :: "real list \<Rightarrow> real" where
  "mean xs = sum_list xs / real (length xs)"

definition variance :: "real list \<Rightarrow> real" where
  "variance xs = (\<Sum>x\<leftarrow>xs. (x - mean xs)\<^sup>2) / real (length xs)"

definition magnitude :: "real list \<Rightarrow> real" where
  "magnitude xs = sqrt (\<Sum>x\<leftarrow>xs. x * x)"


section \<open>Basic facts about the partial operations\<close>

lemma those_map_Some:
  "(\<And>x. x \<in> set xs \<Longrightarrow> f x = Some (g x)) \<Longrightarrow> those (map f xs) = Some (map g xs)"
  by (induction xs) simp_all

lemma those_map_js_div:
  "b \<noteq> 0 \<Longrightarrow> those (map (\<lambda>v. js_div (h v) b) xs) = Some (map (\<lambda>v. h v / b) xs)"
  by (rule those_map_Some) (simp add: js_div_def)

lemma foldl_add_sum_list:
  "foldl (\<lambda>a b. a + f b) s xs = s + sum_list (map f xs)"
  for s :: real
  by (induction xs arbitrary: s) simp_all

lemma Math_min_eq: "vs \<noteq> [] \<Longrightarrow> Math_min vs = Some (Min (set vs))"
  by (cases vs) (simp_all add: Min.set_eq_fold [symmetric])

lemma Math_max_eq: "vs \<noteq> [] \<Longrightarrow> Math_max vs = Some (Max (set vs))"
  by (cases vs) (simp_all add: Max.set_eq_fold [symmetric])

section \<open>Normalization\<close>

lemma normalizeValues_none: "normalizeValues v none = Some v"
  by (simp add: normalizeValues_def)

lemma normalizeValues_area_eq:
  "normalizeValues v area =
     (if (\<Sum>x\<leftarrow>v. \<bar>x\<bar>) = 0 then Some v else Some (map (\<lambda>x. x / (\<Sum>x\<leftarrow>v. \<bar>x\<bar>)) v))"
  by (simp add: normalizeValues_def foldl_add_sum_list those_map_js_div Let_def)

lemma normalizeValues_minmax_eq:
  "v \<noteq> [] \<Longrightarrow> normalizeValues v minmax =
     (if Max (set v) - Min (set v) = 0 then Some (map (\<lambda>x. 0) v)
      else Some (map (\<lambda>x. (x - Min (set v)) / (Max (set v) - Min (set v))) v))"
  by (simp add: normalizeValues_def Math_min_eq Math_max_eq those_map_js_div Let_def)

lemma sum_list_abs_div:
  fixes s :: real
  assumes "0 < s"
  shows "(\<Sum>x\<leftarrow>map (\<lambda>x. x / s) v. \<bar>x\<bar>) = (\<Sum>x\<leftarrow>v. \<bar>x\<bar>) / s"
  using assms by (induction v) (simp_all add: add_divide_distrib)

lemma sum_list_abs_nonneg: "0 \<le> (\<Sum>x\<leftarrow>v. \<bar>x :: real\<bar>)"
  by (induction v) simp_all

text \<open>
  C4. Area normalization: when the sum of the absolute values of \<open>v\<close> is not zero, the
  output is \<open>v\<close> with every element divided by that sum, and the absolute values of the
  output sum to 1; when the sum is zero the output is the input.
\<close>

theorem normalizeValues_area_spec:
  "((\<Sum>x\<leftarrow>v. \<bar>x\<bar>) \<noteq> 0 \<longrightarrow>
      (\<exists>out. normalizeValues v area = Some out
          \<and> out = map (\<lambda>x. x / (\<Sum>x\<leftarrow>v. \<bar>x\<bar>)) v
          \<and> (\<Sum>x\<leftarrow>out. \<bar>x\<bar>) = 1))
   \<and> ((\<Sum>x\<leftarrow>v. \<bar>x\<bar>) = 0 \<longrightarrow> normalizeValues v area = Some v)"
proof (intro conjI impI)
  assume nz: "(\<Sum>x\<leftarrow>v. \<bar>x\<bar>) \<noteq> 0"
  with sum_list_abs_nonneg [of v] have pos: "0 < (\<Sum>x\<leftarrow>v. \<bar>x\<bar>)"
    by simp
  have "(\<Sum>x\<leftarrow>map (\<lambda>x. x / (\<Sum>x\<leftarrow>v. \<bar>x\<bar>)) v. \<bar>x\<bar>) = 1"
    using pos by (simp only: sum_list_abs_div [OF pos]) simp
  then show "\<exists>out. normalizeValues v area = Some out
          \<and> out = map (\<lambda>x. x / (\<Sum>x\<leftarrow>v. \<bar>x\<bar>)) v
          \<and> (\<Sum>x\<leftarrow>out. \<bar>x\<bar>) = 1"
    using nz by (simp add: normalizeValues_area_eq)
next
  assume "(\<Sum>x\<leftarrow>v. \<bar>x\<bar>) = 0"
  then show "normalizeValues v area = Some v"
    by (simp add: normalizeValues_area_eq)
qed

theorem normalizeValues_area_spec_witness:
  "normalizeValues [1, -3] area = Some [1 / 4, - 3 / 4]
   \<and> (\<Sum>x\<leftarrow>[1 / 4, - 3 / 4 :: real]. \<bar>x\<bar>) = 1
   \<and> normalizeValues [0, 0] area = Some [0, 0]"
  using normalizeValues_area_spec [of "[1, -3]"] normalizeValues_area_spec [of "[0, 0]"]
  by simp

lemma Min_map_affine:
  fixes v :: "real list"
  assumes "v \<noteq> []" and "0 < r"
  shows "Min (set (map (\<lambda>x. (x - m) / r) v)) = (Min (set v) - m) / r"
proof -
  have "mono (\<lambda>x. (x - m) / r)"
    using assms(2) by (intro monoI) (simp add: divide_right_mono)
  then have "(Min (set v) - m) / r = Min ((\<lambda>x. (x - m) / r) ` set v)"
    using assms(1) by (intro mono_Min_commute) simp_all
  then show ?thesis by simp
qed

lemma Max_map_affine:
  fixes v :: "real list"
  assumes "v \<noteq> []" and "0 < r"
  shows "Max (set (map (\<lambda>x. (x - m) / r) v)) = (Max (set v) - m) / r"
proof -
  have "mono (\<lambda>x. (x - m) / r)"
    using assms(2) by (intro monoI) (simp add: divide_right_mono)
  then have "(Max (set v) - m) / r = Max ((\<lambda>x. (x - m) / r) ` set v)"
    using assms(1) by (intro mono_Max_commute) simp_all
  then show ?thesis by simp
qed

lemma Min_le_Max_list:
  fixes v :: "real list"
  shows "v \<noteq> [] \<Longrightarrow> Min (set v) \<le> Max (set v)"
  by (simp add: Min_le_iff)

text \<open>
  C5. Min-max normalization of a non-empty sequence: when it is not constant, every
  element is mapped by \<open>(v - min) / (max - min)\<close>, and the output has minimum 0 and
  maximum 1; when it is constant, every output element is 0.
\<close>

theorem normalizeValues_minmax_spec:
  assumes "v \<noteq> []"
  shows "(Max (set v) \<noteq> Min (set v) \<longrightarrow>
           (\<exists>out. normalizeValues v minmax = Some out
              \<and> out = map (\<lambda>x. (x - Min (set v)) / (Max (set v) - Min (set v))) v
              \<and> Min (set out) = 0 \<and> Max (set out) = 1))
         \<and> (Max (set v) = Min (set v) \<longrightarrow>
              normalizeValues v minmax = Some (map (\<lambda>x. 0) v))"
proof (intro conjI impI)
  assume ne: "Max (set v) \<noteq> Min (set v)"
  with Min_le_Max_list [OF assms] have pos: "0 < Max (set v) - Min (set v)"
    by simp
  have "Min (set (map (\<lambda>x. (x - Min (set v)) / (Max (set v) - Min (set v))) v)) = 0"
    by (simp only: Min_map_affine [OF assms pos]) simp
  moreover have "Max (set (map (\<lambda>x. (x - Min (set v)) / (Max (set v) - Min (set v))) v)) = 1"
    using pos by (simp only: Max_map_affine [OF assms pos]) simp
  ultimately show "\<exists>out. normalizeValues v minmax = Some out
              \<and> out = map (\<lambda>x. (x - Min (set v)) / (Max (set v) - Min (set v))) v
              \<and> Min (set out) = 0 \<and> Max (set out) = 1"
    using ne by (simp add: normalizeValues_minmax_eq [OF assms])
next
  assume "Max (set v) = Min (set v)"
  then show "normalizeValues v minmax = Some (map (\<lambda>x. 0) v)"
    by (simp add: normalizeValues_minmax_eq [OF assms])
qed

theorem normalizeValues_minmax_spec_witness:
  "normalizeValues [2, 4, 3] minmax = Some [0, 1, 1 / 2]
   \<and> normalizeValues [5, 5] minmax = Some [0, 0]"
proof -
  have a: "[2, 4, 3 :: real] \<noteq> []" and b: "[5, 5 :: real] \<noteq> []"
    by simp_all
  show ?thesis
    using normalizeValues_minmax_spec [OF a] normalizeValues_minmax_spec [OF b]
    by simp
qed

section \<open>Smoothing\<close>

text \<open>The inner loop adds up exactly the elements at the existing indices \<open>j\<close> with
  \<open>i - half \<le> j \<le> i + half\<close>, and counts them.\<close>

lemma window_fold:
  "fold (window_acc v) js (s, c) =
     (s + (\<Sum>j\<leftarrow>filter (\<lambda>j. 0 \<le> j \<and> j < int (length v)) js. v ! nat j),
      c + length (filter (\<lambda>j. 0 \<le> j \<and> j < int (length v)) js))"
  by (induction js arbitrary: s c) (simp_all add: window_acc_def)

lemma window_index_image:
  "set (filter (\<lambda>j. 0 \<le> j \<and> j < int (length v)) [int i - h..int i + h])
     = int ` {j. j < length v \<and> int i - h \<le> int j \<and> int j \<le> int i + h}"
proof (intro set_eqI iffI)
  fix k
  assume "k \<in> set (filter (\<lambda>j. 0 \<le> j \<and> j < int (length v)) [int i - h..int i + h])"
  then have "nat k < length v" "int i - h \<le> int (nat k)" "int (nat k) \<le> int i + h" "k = int (nat k)"
    by auto
  then show "k \<in> int ` {j. j < length v \<and> int i - h \<le> int j \<and> int j \<le> int i + h}"
    by blast
next
  fix k
  assume "k \<in> int ` {j. j < length v \<and> int i - h \<le> int j \<and> int j \<le> int i + h}"
  then show "k \<in> set (filter (\<lambda>j. 0 \<le> j \<and> j < int (length v)) [int i - h..int i + h])"
    by auto
qed

lemma window_loop_eq:
  "window_loop v (int i) h =
     (\<Sum>j \<in> {j. j < length v \<and> int i - h \<le> int j \<and> int j \<le> int i + h}. v ! j,
      card {j. j < length v \<and> int i - h \<le> int j \<and> int j \<le> int i + h})"
proof -
  let ?J = "{j. j < length v \<and> int i - h \<le> int j \<and> int j \<le> int i + h}"
  let ?ks = "filter (\<lambda>j. 0 \<le> j \<and> j < int (length v)) [int i - h..int i + h]"
  have d: "distinct ?ks"
    by simp
  have "(\<Sum>j\<leftarrow>?ks. v ! nat j) = (\<Sum>k \<in> set ?ks. v ! nat k)"
    using d by (rule sum_list_distinct_conv_sum_set)
  also have "\<dots> = (\<Sum>k \<in> int ` ?J. v ! nat k)"
    by (simp only: window_index_image)
  also have "\<dots> = (\<Sum>j \<in> ?J. v ! j)"
    by (simp add: sum.reindex)
  finally have s: "(\<Sum>j\<leftarrow>?ks. v ! nat j) = (\<Sum>j \<in> ?J. v ! j)" .
  have "length ?ks = card (set ?ks)"
    using d by (simp only: distinct_card)
  also have "\<dots> = card (int ` ?J)"
    by (simp only: window_index_image)
  also have "\<dots> = card ?J"
    by (simp add: card_image)
  finally have c: "length ?ks = card ?J" .
  show ?thesis
    unfolding window_loop_def window_fold using s c by simp
qed

lemma window_card_pos:
  assumes "i < length v" and "0 \<le> h"
  shows "0 < card {j. j < length v \<and> int i - h \<le> int j \<and> int j \<le> int i + h}"
proof -
  have "finite {j. j < length v \<and> int i - h \<le> int j \<and> int j \<le> int i + h}"
    by simp
  moreover have "i \<in> {j. j < length v \<and> int i - h \<le> int j \<and> int j \<le> int i + h}"
    using assms by simp
  ultimately show ?thesis
    by (metis card_gt_0_iff empty_iff)
qed

lemma applyMovingAverage_eq:
  assumes "1 < window" and "v \<noteq> []"
  shows "applyMovingAverage v window =
     Some (map (\<lambda>i. (\<Sum>j \<in> {j. j < length v \<and> int i - window div 2 \<le> int j \<and> int j \<le> int i + window div 2}. v ! j)
                    / real (card {j. j < length v \<and> int i - window div 2 \<le> int j
                                      \<and> int j \<le> int i + window div 2}))
               [0..<length v])"
proof -
  have h: "0 \<le> window div 2"
    using assms(1) by simp
  have "those (map (\<lambda>i. (\<lambda>(sum, count). js_div sum (real count)) (window_loop v (int i) (window div 2)))
                   [0..<length v])
        = Some (map (\<lambda>i. (\<Sum>j \<in> {j. j < length v \<and> int i - window div 2 \<le> int j \<and> int j \<le> int i + window div 2}. v ! j)
                    / real (card {j. j < length v \<and> int i - window div 2 \<le> int j
                                      \<and> int j \<le> int i + window div 2}))
               [0..<length v])"
  proof (rule those_map_Some)
    fix i
    assume "i \<in> set [0..<length v]"
    then have "i < length v"
      by simp
    from window_card_pos [OF this h]
    have "real (card {j. j < length v \<and> int i - window div 2 \<le> int j
                                      \<and> int j \<le> int i + window div 2}) \<noteq> 0"
      by (simp only: of_nat_eq_0_iff)
    then show "(\<lambda>(sum, count). js_div sum (real count)) (window_loop v (int i) (window div 2))
          = Some ((\<Sum>j \<in> {j. j < length v \<and> int i - window div 2 \<le> int j \<and> int j \<le> int i + window div 2}. v ! j)
                    / real (card {j. j < length v \<and> int i - window div 2 \<le> int j
                                      \<and> int j \<le> int i + window div 2}))"
      by (simp only: window_loop_eq prod.case js_div_def if_False)
  qed
  then show ?thesis
    using assms by (simp add: applyMovingAverage_def Let_def)
qed

lemma applyMovingAverage_id:
  "window \<le> 1 \<or> v = [] \<Longrightarrow> applyMovingAverage v window = Some v"
  by (auto simp: applyMovingAverage_def)

lemma applyMovingAverage_Some:
  "\<exists>r. applyMovingAverage v window = Some r \<and> length r = length v"
proof (cases "window \<le> 1 \<or> v = []")
  case True
  then show ?thesis
    by (simp add: applyMovingAverage_id)
next
  case False
  then have "1 < window" "v \<noteq> []"
    by simp_all
  then show ?thesis
    by (simp add: applyMovingAverage_eq)
qed

lemma window_single:
  assumes "i < length v"
  shows "{j. j < length v \<and> int i - 0 \<le> int j \<and> int j \<le> int i + 0} = {i}"
  using assms by auto

lemma window_nonempty_iff:
  assumes "i < length v"
  shows "{j. j < length v \<and> int i - window div 2 \<le> int j \<and> int j \<le> int i + window div 2} \<noteq> {}
         \<longleftrightarrow> 0 \<le> window"
proof
  assume "{j. j < length v \<and> int i - window div 2 \<le> int j \<and> int j \<le> int i + window div 2} \<noteq> {}"
  then obtain j where "int i - window div 2 \<le> int j" "int j \<le> int i + window div 2"
    by blast
  then have "0 \<le> window div 2"
    by linarith
  then show "0 \<le> window"
    by simp
next
  assume "0 \<le> window"
  then have "0 \<le> window div 2"
    by simp
  then have "i \<in> {j. j < length v \<and> int i - window div 2 \<le> int j \<and> int j \<le> int i + window div 2}"
    using assms by simp
  then show "{j. j < length v \<and> int i - window div 2 \<le> int j \<and> int j \<le> int i + window div 2} \<noteq> {}"
    by blast
qed

text \<open>
  C6. \<open>applyMovingAverage\<close> always returns a sequence of the length of its input. Element
  \<open>i\<close> of the result is the arithmetic mean of the elements at the existing indices \<open>j\<close>
  with \<open>i - floor(window / 2) \<le> j \<le> i + floor(window / 2)\<close>, whenever there is such an
  index, which is the case exactly when the window size is not negative: the sum is over
  indices below the length only, so nothing is padded or wrapped around. For a window
  size of at most 1, or an empty input, the result is the input.
\<close>

theorem applyMovingAverage_spec:
  "\<exists>r. applyMovingAverage v window = Some r
     \<and> length r = length v
     \<and> (\<forall>i < length v.
           {j. j < length v \<and> int i - window div 2 \<le> int j \<and> int j \<le> int i + window div 2} \<noteq> {}
           \<longrightarrow> r ! i = (\<Sum>j \<in> {j. j < length v \<and> int i - window div 2 \<le> int j \<and> int j \<le> int i + window div 2}. v ! j)
                      / real (card {j. j < length v \<and> int i - window div 2 \<le> int j
                                        \<and> int j \<le> int i + window div 2}))
     \<and> (window \<le> 1 \<or> v = [] \<longrightarrow> r = v)"
proof (cases "window \<le> 1 \<or> v = []")
  case True
  have "v ! i = (\<Sum>j \<in> {j. j < length v \<and> int i - window div 2 \<le> int j \<and> int j \<le> int i + window div 2}. v ! j)
                      / real (card {j. j < length v \<and> int i - window div 2 \<le> int j
                                        \<and> int j \<le> int i + window div 2})"
    if "i < length v"
      and "{j. j < length v \<and> int i - window div 2 \<le> int j \<and> int j \<le> int i + window div 2} \<noteq> {}"
    for i
  proof -
    from that have "0 \<le> window"
      by (simp only: window_nonempty_iff)
    moreover from True that(1) have "window \<le> 1"
      by auto
    ultimately have "window div 2 = 0"
      by simp
    then show ?thesis
      using window_single [OF that(1)] by simp
  qed
  then show ?thesis
    using True by (simp add: applyMovingAverage_id)
next
  case False
  then have "1 < window" "v \<noteq> []"
    by simp_all
  then show ?thesis
    using False by (simp add: applyMovingAverage_eq)
qed

theorem applyMovingAverage_spec_witness:
  "(\<exists>r. applyMovingAverage [3, 6, 12] 3 = Some r \<and> length r = 3
        \<and> r ! 0 = 9 / 2 \<and> r ! 1 = 7 \<and> r ! 2 = 9)
   \<and> applyMovingAverage [3, 6, 12] 1 = Some [3, 6, 12]
   \<and> applyMovingAverage [] 5 = Some []"
proof -
  let ?v = "[3, 6, 12 :: real]"
  have w0: "{j. j < length ?v \<and> int 0 - 3 div 2 \<le> int j \<and> int j \<le> int 0 + 3 div 2} = {0, 1}"
    by auto
  have w1: "{j. j < length ?v \<and> int 1 - 3 div 2 \<le> int j \<and> int j \<le> int 1 + 3 div 2} = {0, 1, 2}"
    by auto
  have w2: "{j. j < length ?v \<and> int 2 - 3 div 2 \<le> int j \<and> int j \<le> int 2 + 3 div 2} = {1, 2}"
    by auto
  from applyMovingAverage_spec [of ?v 3]
  obtain r where r: "applyMovingAverage ?v 3 = Some r" "length r = length ?v"
    and m: "\<forall>i < length ?v.
             {j. j < length ?v \<and> int i - 3 div 2 \<le> int j \<and> int j \<le> int i + 3 div 2} \<noteq> {}
             \<longrightarrow> r ! i = (\<Sum>j \<in> {j. j < length ?v \<and> int i - 3 div 2 \<le> int j \<and> int j \<le> int i + 3 div 2}. ?v ! j)
                      / real (card {j. j < length ?v \<and> int i - 3 div 2 \<le> int j
                                        \<and> int j \<le> int i + 3 div 2})"
    by (elim exE conjE)
  have "0 < length ?v" "1 < length ?v" "2 < length ?v"
    by simp_all
  with m have
    "{j. j < length ?v \<and> int 0 - 3 div 2 \<le> int j \<and> int j \<le> int 0 + 3 div 2} \<noteq> {}
       \<longrightarrow> r ! 0 = (\<Sum>j \<in> {j. j < length ?v \<and> int 0 - 3 div 2 \<le> int j \<and> int j \<le> int 0 + 3 div 2}. ?v ! j)
                      / real (card {j. j < length ?v \<and> int 0 - 3 div 2 \<le> int j
                                        \<and> int j \<le> int 0 + 3 div 2})"
    "{j. j < length ?v \<and> int 1 - 3 div 2 \<le> int j \<and> int j \<le> int 1 + 3 div 2} \<noteq> {}
       \<longrightarrow> r ! 1 = (\<Sum>j \<in> {j. j < length ?v \<and> int 1 - 3 div 2 \<le> int j \<and> int j \<le> int 1 + 3 div 2}. ?v ! j)
                      / real (card {j. j < length ?v \<and> int 1 - 3 div 2 \<le> int j
                                        \<and> int j \<le> int 1 + 3 div 2})"
    "{j. j < length ?v \<and> int 2 - 3 div 2 \<le> int j \<and> int j \<le> int 2 + 3 div 2} \<noteq> {}
       \<longrightarrow> r ! 2 = (\<Sum>j \<in> {j. j < length ?v \<and> int 2 - 3 div 2 \<le> int j \<and> int j \<le> int 2 + 3 div 2}. ?v ! j)
                      / real (card {j. j < length ?v \<and> int 2 - 3 div 2 \<le> int j
                                        \<and> int j \<le> int 2 + 3 div 2})"
    by blast+
  then have "r ! 0 = 9 / 2" "r ! 1 = 7" "r ! 2 = 9"
    unfolding w0 w1 w2 by simp_all
  moreover have "applyMovingAverage ?v 1 = Some ?v"
    using applyMovingAverage_spec [of ?v 1] by auto
  moreover have "applyMovingAverage [] 5 = Some []"
    using applyMovingAverage_spec [of "[]" 5] by auto
  ultimately show ?thesis
    using r by simp
qed

text \<open>
  C10. An even window size of at least 2 is accepted and gives the result of the next
  larger odd window, since the half-width is \<open>floor(window / 2)\<close>.
\<close>

theorem applyMovingAverage_even_window:
  assumes "even window" and "2 \<le> window"
  shows "applyMovingAverage v window = applyMovingAverage v (window + 1)
         \<and> (\<exists>r. applyMovingAverage v window = Some r \<and> length r = length v)"
proof -
  have "(window + 1) div 2 = window div 2"
    using assms(1) by simp
  then have "applyMovingAverage v window = applyMovingAverage v (window + 1)"
    using assms(2) by (simp add: applyMovingAverage_def)
  then show ?thesis
    using applyMovingAverage_Some [of v window] by simp
qed

theorem applyMovingAverage_even_window_witness:
  "applyMovingAverage [3, 6] 4 = applyMovingAverage [3, 6] 5
   \<and> (\<exists>r. applyMovingAverage [3, 6] 4 = Some r \<and> length r = length [3, 6 :: real])"
proof -
  have e: "(4 :: int) + 1 = 5"
    by simp
  have "even (4 :: int)" and "(2 :: int) \<le> 4"
    by simp_all
  from applyMovingAverage_even_window [OF this, of "[3, 6]"] show ?thesis
    unfolding e .
qed

section \<open>Sums of squares\<close>

lemma sum_list_sq_diff:
  fixes a :: real
  shows "(\<Sum>x\<leftarrow>xs. (x - a)\<^sup>2)
         = (\<Sum>x\<leftarrow>xs. x * x) - 2 * a * sum_list xs + real (length xs) * a\<^sup>2"
  by (induction xs) (simp_all add: power2_eq_square algebra_simps)

lemma sum_list_sq_nonneg: "0 \<le> (\<Sum>x\<leftarrow>xs. (f x :: real)\<^sup>2)"
  by (induction xs) simp_all

lemma sum_list_self_mult_nonneg: "0 \<le> (\<Sum>x\<leftarrow>xs. (f x :: real) * f x)"
  by (induction xs) simp_all

text \<open>The factor \<open>n * sumASq - sumA * sumA\<close> of Pearson's denominator.\<close>

lemma spread_Cons:
  fixes a :: real
  shows "real (length (a # xs)) * (\<Sum>x\<leftarrow>a # xs. x * x) - sum_list (a # xs) * sum_list (a # xs)
         = (real (length xs) * (\<Sum>x\<leftarrow>xs. x * x) - sum_list xs * sum_list xs)
           + (\<Sum>x\<leftarrow>xs. (x - a)\<^sup>2)"
proof -
  define D where "D = (\<Sum>x\<leftarrow>xs. (x - a)\<^sup>2)"
  have "D = (\<Sum>x\<leftarrow>xs. x * x) - 2 * a * sum_list xs + real (length xs) * a\<^sup>2"
    unfolding D_def by (rule sum_list_sq_diff)
  then have "real (length (a # xs)) * (\<Sum>x\<leftarrow>a # xs. x * x) - sum_list (a # xs) * sum_list (a # xs)
         = (real (length xs) * (\<Sum>x\<leftarrow>xs. x * x) - sum_list xs * sum_list xs) + D"
    by (simp add: power2_eq_square algebra_simps)
  then show ?thesis
    unfolding D_def .
qed

lemma spread_nonneg:
  fixes xs :: "real list"
  shows "0 \<le> real (length xs) * (\<Sum>x\<leftarrow>xs. x * x) - sum_list xs * sum_list xs"
proof (induction xs)
  case Nil
  show ?case by simp
next
  case (Cons a xs)
  have "0 \<le> (\<Sum>x\<leftarrow>xs. (x - a)\<^sup>2)"
    by (rule sum_list_sq_nonneg)
  with Cons show ?case
    by (simp only: spread_Cons)
qed

lemma spread_variance:
  fixes xs :: "real list"
  assumes "xs \<noteq> []"
  shows "real (length xs) * (\<Sum>x\<leftarrow>xs. x * x) - sum_list xs * sum_list xs
         = (real (length xs))\<^sup>2 * variance xs"
proof -
  have n: "real (length xs) \<noteq> 0"
    using assms by simp
  have "(\<Sum>x\<leftarrow>xs. (x - mean xs)\<^sup>2)
        = (\<Sum>x\<leftarrow>xs. x * x) - 2 * mean xs * sum_list xs + real (length xs) * (mean xs)\<^sup>2"
    by (rule sum_list_sq_diff)
  also have "\<dots> = (\<Sum>x\<leftarrow>xs. x * x) - sum_list xs * sum_list xs / real (length xs)"
    using n by (simp add: mean_def power2_eq_square field_simps)
  finally have "real (length xs) * (\<Sum>x\<leftarrow>xs. (x - mean xs)\<^sup>2)
        = real (length xs) * (\<Sum>x\<leftarrow>xs. x * x) - sum_list xs * sum_list xs"
    using n by (simp add: field_simps)
  then show ?thesis
    using n by (simp add: variance_def power2_eq_square)
qed


section \<open>Metrics: closed forms\<close>

lemma spread_nonneg_map:
  "0 \<le> real (length c) * (\<Sum>p\<leftarrow>c. f p * f p) - (\<Sum>p\<leftarrow>c. f p) * (\<Sum>p\<leftarrow>c. (f p :: real))"
  using spread_nonneg [of "map f c"] by (simp add: comp_def)

lemma calculatePearson_eq:
  assumes "2 \<le> length c"
  shows "calculatePearson c =
     (let n = real (length c);
          den = sqrt ((n * (\<Sum>p\<leftarrow>c. yA p * yA p) - (\<Sum>p\<leftarrow>c. yA p) * (\<Sum>p\<leftarrow>c. yA p))
                      * (n * (\<Sum>p\<leftarrow>c. yB p * yB p) - (\<Sum>p\<leftarrow>c. yB p) * (\<Sum>p\<leftarrow>c. yB p)))
      in if den = 0 then Some 0
         else Some ((n * (\<Sum>p\<leftarrow>c. yA p * yB p) - (\<Sum>p\<leftarrow>c. yA p) * (\<Sum>p\<leftarrow>c. yB p)) / den))"
proof -
  have "0 \<le> (real (length c) * (\<Sum>p\<leftarrow>c. yA p * yA p) - (\<Sum>p\<leftarrow>c. yA p) * (\<Sum>p\<leftarrow>c. yA p))
                      * (real (length c) * (\<Sum>p\<leftarrow>c. yB p * yB p) - (\<Sum>p\<leftarrow>c. yB p) * (\<Sum>p\<leftarrow>c. yB p))"
    by (intro mult_nonneg_nonneg spread_nonneg_map)
  then have "\<not> (real (length c) * (\<Sum>p\<leftarrow>c. yA p * yA p) - (\<Sum>p\<leftarrow>c. yA p) * (\<Sum>p\<leftarrow>c. yA p))
                      * (real (length c) * (\<Sum>p\<leftarrow>c. yB p * yB p) - (\<Sum>p\<leftarrow>c. yB p) * (\<Sum>p\<leftarrow>c. yB p)) < 0"
    by simp
  then show ?thesis
    using assms
    by (simp add: calculatePearson_def foldl_add_sum_list Math_sqrt_def js_div_def Let_def
          del: real_sqrt_eq_zero_cancel_iff mult_eq_0_iff)
qed

lemma calculateCosineSimilarity_eq:
  "calculateCosineSimilarity c =
     (if sqrt (\<Sum>p\<leftarrow>c. yA p * yA p) = 0 \<or> sqrt (\<Sum>p\<leftarrow>c. yB p * yB p) = 0 then Some 0
      else Some ((\<Sum>p\<leftarrow>c. yA p * yB p)
                 / (sqrt (\<Sum>p\<leftarrow>c. yA p * yA p) * sqrt (\<Sum>p\<leftarrow>c. yB p * yB p))))"
proof -
  have a: "\<not> (\<Sum>p\<leftarrow>c. yA p * yA p) < 0" and b: "\<not> (\<Sum>p\<leftarrow>c. yB p * yB p) < 0"
    by (simp_all add: not_less sum_list_self_mult_nonneg)
  show ?thesis
    using a b
    by (simp add: calculateCosineSimilarity_def foldl_add_sum_list Math_sqrt_def js_div_def
          del: real_sqrt_eq_zero_cancel_iff)
qed

lemma normalizeValues_Some:
  "\<exists>r. normalizeValues v m = Some r \<and> length r = length v"
proof (cases m)
  case none
  then show ?thesis by (simp add: normalizeValues_none)
next
  case area
  then show ?thesis by (simp add: normalizeValues_area_eq)
next
  case minmax
  show ?thesis
  proof (cases "v = []")
    case True
    then show ?thesis by (simp add: normalizeValues_def)
  next
    case False
    then show ?thesis using minmax by (simp add: normalizeValues_minmax_eq)
  qed
qed

lemma fold_add_sum_list:
  "fold (\<lambda>i s. s + g i) xs s0 = s0 + sum_list (map g xs)"
  for s0 :: real
  by (induction xs arbitrary: s0) simp_all

lemma foldl_pair_sum_list:
  "foldl (\<lambda>s (i, val). s + g i val) s0 xs = s0 + (\<Sum>(i, val)\<leftarrow>xs. g i val)"
  for s0 :: real
  by (induction xs arbitrary: s0) (simp_all add: case_prod_beta)

lemma calculateRMSE_eq:
  assumes "c \<noteq> []"
    and "normalizeValues (map yA c) m = Some normA"
    and "normalizeValues (map yB c) m = Some normB"
  shows "calculateRMSE c m =
           Some (sqrt ((\<Sum>i\<leftarrow>[0..<length c]. (normA ! i - normB ! i)\<^sup>2) / real (length c)))"
proof -
  have "0 \<le> (\<Sum>i\<leftarrow>[0..<length c]. (normA ! i - normB ! i)\<^sup>2)"
    by (rule sum_list_sq_nonneg)
  then have "\<not> (\<Sum>i\<leftarrow>[0..<length c]. (normA ! i - normB ! i)\<^sup>2) / real (length c) < 0"
    by (simp add: not_less)
  then show ?thesis
    using assms
    by (simp add: calculateRMSE_def fold_add_sum_list js_div_def Math_sqrt_def Let_def)
qed

lemma calculateEuclidean_eq:
  assumes "c \<noteq> []"
    and "normalizeValues (map yA c) m = Some normA"
    and "normalizeValues (map yB c) m = Some normB"
  shows "calculateEuclidean c m =
           Some (sqrt (\<Sum>(i, val)\<leftarrow>enumerate 0 normA. (val - normB ! i)\<^sup>2))"
proof -
  have "(\<lambda>(i, val). (val - normB ! i)\<^sup>2) = (\<lambda>x. (snd x - normB ! fst x)\<^sup>2)"
    by (simp add: fun_eq_iff)
  moreover have "0 \<le> (\<Sum>x\<leftarrow>enumerate 0 normA. (snd x - normB ! fst x)\<^sup>2)"
    by (rule sum_list_sq_nonneg)
  ultimately have "\<not> (\<Sum>(i, val)\<leftarrow>enumerate 0 normA. (val - normB ! i)\<^sup>2) < 0"
    by (simp only: not_less)
  then show ?thesis
    using assms
    by (simp add: calculateEuclidean_def foldl_pair_sum_list Math_sqrt_def Let_def)
qed

section \<open>Spectral information divergence\<close>

lemma sid_loop_eq:
  assumes "\<And>i. i \<in> set is \<Longrightarrow> 0 < p ! i \<and> 0 < q ! i"
  shows "sid_loop p q is acc
         = Some (acc + (\<Sum>i\<leftarrow>is. (p ! i - q ! i) * (ln (p ! i) - ln (q ! i))))"
  using assms
proof (induction "is" arbitrary: acc)
  case Nil
  show ?case by simp
next
  case (Cons i "is")
  have "0 < p ! i" "0 < q ! i"
    using Cons.prems [of i] by simp_all
  then have "sid_term p q i = Some ((p ! i - q ! i) * (ln (p ! i) - ln (q ! i)))"
    by (simp add: sid_term_def Math_log_def)
  moreover have "sid_loop p q is (acc + (p ! i - q ! i) * (ln (p ! i) - ln (q ! i)))
      = Some (acc + (p ! i - q ! i) * (ln (p ! i) - ln (q ! i))
               + (\<Sum>i\<leftarrow>is. (p ! i - q ! i) * (ln (p ! i) - ln (q ! i))))"
    using Cons.prems by (intro Cons.IH) simp
  ultimately show ?case
    by (simp add: add.assoc)
qed

lemma sid_summand_nonneg:
  fixes a b :: real
  assumes "0 < a" and "0 < b"
  shows "0 \<le> (a - b) * (ln a - ln b)"
proof (cases "a \<le> b")
  case True
  then have "ln a \<le> ln b"
    using assms by simp
  with True show ?thesis
    by (intro mult_nonpos_nonpos) simp_all
next
  case False
  then have "ln b \<le> ln a"
    using assms by simp
  with False show ?thesis
    by (intro mult_nonneg_nonneg) simp_all
qed

text \<open>The floored values are positive, so their area normalization is their division by
  a positive sum.\<close>

lemma floored_sum_pos:
  assumes "c \<noteq> []"
  shows "0 < (\<Sum>x\<leftarrow>map (\<lambda>cp. max (1 / 10 ^ 10) (f cp :: real)) c. \<bar>x\<bar>)"
  using assms
proof (induction c)
  case Nil
  then show ?case by simp
next
  case (Cons a c)
  have "0 < \<bar>max (1 / 10 ^ 10) (f a)\<bar>"
    by (simp add: max_def)
  moreover have "0 \<le> (\<Sum>x\<leftarrow>map (\<lambda>cp. max (1 / 10 ^ 10) (f cp)) c. \<bar>x\<bar>)"
    by (rule sum_list_abs_nonneg)
  ultimately show ?case
    by simp
qed

lemma floored_area:
  "\<exists>p. normalizeValues (map (\<lambda>cp. max (1 / 10 ^ 10) (f cp)) c) area = Some p
       \<and> length p = length c \<and> (\<forall>i < length c. 0 < p ! i)
       \<and> p = (if c = [] then []
              else map (\<lambda>x. x / (\<Sum>x\<leftarrow>map (\<lambda>cp. max (1 / 10 ^ 10) (f cp)) c. \<bar>x\<bar>))
                     (map (\<lambda>cp. max (1 / 10 ^ 10) (f cp)) c))"
proof (cases "c = []")
  case True
  then show ?thesis
    by (simp add: normalizeValues_def)
next
  case False
  let ?s = "(\<Sum>x\<leftarrow>map (\<lambda>cp. max (1 / 10 ^ 10) (f cp)) c. \<bar>x\<bar>)"
  have pos: "0 < ?s"
    using False by (rule floored_sum_pos)
  have "0 < max (1 / 10 ^ 10) (f (c ! i)) / ?s" for i
  proof -
    have "(0 :: real) < max (1 / 10 ^ 10) (f (c ! i))"
      by (simp add: max_def)
    with pos show ?thesis
      by (rule divide_pos_pos [rotated])
  qed
  then show ?thesis
    using False pos by (simp add: normalizeValues_area_eq del: max_less_iff_conj)
qed

lemma calculateSID_eq:
  assumes "normalizeValues (map (\<lambda>cp. max (1 / 10 ^ 10) (yA cp)) c) area = Some p"
    and "normalizeValues (map (\<lambda>cp. max (1 / 10 ^ 10) (yB cp)) c) area = Some q"
  shows "calculateSID c
         = Some (\<Sum>i\<leftarrow>[0..<length c]. (p ! i - q ! i) * (ln (p ! i) - ln (q ! i)))"
proof -
  from floored_area [of yA c] assms(1)
  have p: "length p = length c" "\<forall>i < length c. 0 < p ! i"
    by auto
  from floored_area [of yB c] assms(2)
  have q: "length q = length c" "\<forall>i < length c. 0 < q ! i"
    by auto
  have "sid_loop p q [0..<length c] 0
        = Some (0 + (\<Sum>i\<leftarrow>[0..<length c]. (p ! i - q ! i) * (ln (p ! i) - ln (q ! i))))"
    using p q by (intro sid_loop_eq) simp
  then show ?thesis
    using assms p by (simp add: calculateSID_def)
qed

text \<open>
  C9. The floored and area-normalized series are positive at every index, every summand
  of the divergence is non-negative, and so is their sum, which \<open>calculateSID\<close> returns.
\<close>

theorem calculateSID_nonneg:
  "\<exists>p q s. normalizeValues (map (\<lambda>cp. max (1 / 10 ^ 10) (yA cp)) c) area = Some p
      \<and> normalizeValues (map (\<lambda>cp. max (1 / 10 ^ 10) (yB cp)) c) area = Some q
      \<and> (\<forall>i < length c. 0 < p ! i \<and> 0 < q ! i
             \<and> 0 \<le> (p ! i - q ! i) * (ln (p ! i) - ln (q ! i)))
      \<and> calculateSID c = Some s
      \<and> s = (\<Sum>i\<leftarrow>[0..<length c]. (p ! i - q ! i) * (ln (p ! i) - ln (q ! i)))
      \<and> 0 \<le> s"
proof -
  from floored_area [of yA c]
  obtain p where p: "normalizeValues (map (\<lambda>cp. max (1 / 10 ^ 10) (yA cp)) c) area = Some p"
    "\<forall>i < length c. 0 < p ! i"
    by blast
  from floored_area [of yB c]
  obtain q where q: "normalizeValues (map (\<lambda>cp. max (1 / 10 ^ 10) (yB cp)) c) area = Some q"
    "\<forall>i < length c. 0 < q ! i"
    by blast
  have t: "0 \<le> (p ! i - q ! i) * (ln (p ! i) - ln (q ! i))" if "i < length c" for i
    using that p(2) q(2) by (intro sid_summand_nonneg) simp_all
  then have "0 \<le> (\<Sum>i\<leftarrow>[0..<length c]. (p ! i - q ! i) * (ln (p ! i) - ln (q ! i)))"
    by (intro sum_list_nonneg) auto
  then show ?thesis
    using p q t calculateSID_eq [OF p(1) q(1)] by simp
qed

theorem calculateSID_nonneg_witness:
  "\<exists>p q s. normalizeValues (map (\<lambda>cp. max (1 / 10 ^ 10) (yA cp))
                [\<lparr>px = 200, yA = 1, yB = 3\<rparr>, \<lparr>px = 200.5, yA = 3, yB = 1\<rparr>]) area = Some p
      \<and> normalizeValues (map (\<lambda>cp. max (1 / 10 ^ 10) (yB cp))
                [\<lparr>px = 200, yA = 1, yB = 3\<rparr>, \<lparr>px = 200.5, yA = 3, yB = 1\<rparr>]) area = Some q
      \<and> 0 < p ! 0 \<and> 0 < q ! 0 \<and> 0 < p ! 1 \<and> 0 < q ! 1
      \<and> calculateSID [\<lparr>px = 200, yA = 1, yB = 3\<rparr>, \<lparr>px = 200.5, yA = 3, yB = 1\<rparr>] = Some s
      \<and> 0 \<le> s"
proof -
  let ?c = "[\<lparr>px = 200, yA = 1, yB = 3\<rparr>, \<lparr>px = 200.5, yA = 3, yB = 1\<rparr>]"
  from calculateSID_nonneg [of ?c]
  obtain p q s where *: "normalizeValues (map (\<lambda>cp. max (1 / 10 ^ 10) (yA cp)) ?c) area = Some p"
    "normalizeValues (map (\<lambda>cp. max (1 / 10 ^ 10) (yB cp)) ?c) area = Some q"
    "\<forall>i < length ?c. 0 < p ! i \<and> 0 < q ! i \<and> 0 \<le> (p ! i - q ! i) * (ln (p ! i) - ln (q ! i))"
    "calculateSID ?c = Some s" "0 \<le> s"
    by blast
  have "0 < length ?c" "1 < length ?c"
    by simp_all
  with *(3) have "0 < p ! 0 \<and> 0 < q ! 0" "0 < p ! 1 \<and> 0 < q ! 1"
    by blast+
  with * show ?thesis
    by blast
qed

section \<open>Totality of the metrics\<close>

lemma calculatePearson_Some: "\<exists>r. calculatePearson c = Some r"
proof (cases "2 \<le> length c")
  case True
  then show ?thesis
    by (simp add: calculatePearson_eq Let_def)
next
  case False
  then show ?thesis
    by (simp add: calculatePearson_def)
qed

lemma calculateCosineSimilarity_Some: "\<exists>r. calculateCosineSimilarity c = Some r"
  by (simp add: calculateCosineSimilarity_eq)

lemma calculateRMSE_Some: "\<exists>r. calculateRMSE c m = Some r"
proof (cases "c = []")
  case True
  then show ?thesis
    by (simp add: calculateRMSE_def)
next
  case False
  from normalizeValues_Some [of "map yA c" m] normalizeValues_Some [of "map yB c" m]
  obtain normA normB where "normalizeValues (map yA c) m = Some normA"
    "normalizeValues (map yB c) m = Some normB"
    by blast
  from calculateRMSE_eq [OF False this] show ?thesis
    by simp
qed

lemma calculateEuclidean_Some: "\<exists>r. calculateEuclidean c m = Some r"
proof (cases "c = []")
  case True
  then show ?thesis
    by (simp add: calculateEuclidean_def)
next
  case False
  from normalizeValues_Some [of "map yA c" m] normalizeValues_Some [of "map yB c" m]
  obtain normA normB where "normalizeValues (map yA c) m = Some normA"
    "normalizeValues (map yB c) m = Some normB"
    by blast
  from calculateEuclidean_eq [OF False this] show ?thesis
    by simp
qed

lemma calculateSID_Some: "\<exists>r. calculateSID c = Some r"
proof -
  from floored_area [of yA c] floored_area [of yB c]
  obtain p q where "normalizeValues (map (\<lambda>cp. max (1 / 10 ^ 10) (yA cp)) c) area = Some p"
    "normalizeValues (map (\<lambda>cp. max (1 / 10 ^ 10) (yB cp)) c) area = Some q"
    by blast
  from calculateSID_eq [OF this] show ?thesis
    by simp
qed

lemma spread_zero_iff_variance:
  assumes "xs \<noteq> []"
  shows "real (length xs) * (\<Sum>x\<leftarrow>xs. x * x) - sum_list xs * sum_list xs = 0 \<longleftrightarrow> variance xs = 0"
  using assms by (simp add: spread_variance)

lemma spread_map_variance:
  assumes "c \<noteq> []"
  shows "real (length c) * (\<Sum>p\<leftarrow>c. f p * f p) - (\<Sum>p\<leftarrow>c. f p) * (\<Sum>p\<leftarrow>c. f p)
         = (real (length c))\<^sup>2 * variance (map f c)"
  using assms spread_variance [of "map f c"] by (simp add: comp_def)

lemma calculatePearson_zero_variance:
  assumes "2 \<le> length c" and "variance (map yA c) = 0 \<or> variance (map yB c) = 0"
  shows "calculatePearson c = Some 0"
proof -
  have ne: "c \<noteq> []"
    using assms(1) by auto
  have "(real (length c) * (\<Sum>p\<leftarrow>c. yA p * yA p) - (\<Sum>p\<leftarrow>c. yA p) * (\<Sum>p\<leftarrow>c. yA p))
          * (real (length c) * (\<Sum>p\<leftarrow>c. yB p * yB p) - (\<Sum>p\<leftarrow>c. yB p) * (\<Sum>p\<leftarrow>c. yB p)) = 0"
    using assms(2) by (simp only: spread_map_variance [OF ne]) auto
  then show ?thesis
    by (simp only: calculatePearson_eq [OF assms(1)] Let_def) simp
qed

lemma calculateCosineSimilarity_zero_magnitude:
  assumes "magnitude (map yA c) = 0 \<or> magnitude (map yB c) = 0"
  shows "calculateCosineSimilarity c = Some 0"
proof -
  have "sqrt (\<Sum>p\<leftarrow>c. yA p * yA p) = 0 \<or> sqrt (\<Sum>p\<leftarrow>c. yB p * yB p) = 0"
    using assms by (simp add: magnitude_def comp_def)
  then show ?thesis
    by (simp only: calculateCosineSimilarity_eq if_True)
qed

section \<open>Self-comparison and symmetry\<close>













section \<open>Alignment\<close>

lemma findIndexFrom_cases:
  "(findIndexFrom P xs k = -1 \<and> (\<forall>x \<in> set xs. \<not> P x))
   \<or> (\<exists>n < length xs. findIndexFrom P xs k = k + int n \<and> P (xs ! n) \<and> (\<forall>m < n. \<not> P (xs ! m)))"
proof (induction xs arbitrary: k)
  case Nil
  show ?case by simp
next
  case (Cons x xs)
  show ?case
  proof (cases "P x")
    case True
    then have "findIndexFrom P (x # xs) k = k + int 0 \<and> P ((x # xs) ! 0)
               \<and> (\<forall>m < 0. \<not> P ((x # xs) ! m))"
      by simp
    then show ?thesis
      by blast
  next
    case False
    from Cons.IH [of "k + 1"] show ?thesis
    proof
      assume "findIndexFrom P xs (k + 1) = -1 \<and> (\<forall>x \<in> set xs. \<not> P x)"
      then show ?thesis
        using False by simp
    next
      assume "\<exists>n < length xs. findIndexFrom P xs (k + 1) = k + 1 + int n \<and> P (xs ! n)
                \<and> (\<forall>m < n. \<not> P (xs ! m))"
      then obtain n where n: "n < length xs" "findIndexFrom P xs (k + 1) = k + 1 + int n"
        "P (xs ! n)" "\<forall>m < n. \<not> P (xs ! m)"
        by blast
      have "\<not> P ((x # xs) ! m)" if "m < Suc n" for m
        using that False n(4) by (cases m) simp_all
      then have "Suc n < length (x # xs) \<and> findIndexFrom P (x # xs) k = k + int (Suc n)
                 \<and> P ((x # xs) ! Suc n) \<and> (\<forall>m < Suc n. \<not> P ((x # xs) ! m))"
        using False n by simp
      then show ?thesis
        by blast
    qed
  qed
qed

lemma findIndex_cases:
  "(findIndex P xs = -1 \<and> (\<forall>x \<in> set xs. \<not> P x))
   \<or> (\<exists>n < length xs. findIndex P xs = int n \<and> P (xs ! n) \<and> (\<forall>m < n. \<not> P (xs ! m)))"
  using findIndexFrom_cases [of P xs 0] by (simp add: findIndex_def)

lemma interpolate_not_found:
  assumes "dat \<noteq> []" and "\<forall>p \<in> set dat. wavelength p < w"
  shows "interpolate dat w = Some (absorption (dat ! 0))"
proof -
  have "findIndex (\<lambda>p. w \<le> wavelength p) dat = -1"
    using findIndex_cases [of "\<lambda>p. w \<le> wavelength p" dat] assms(2)
    by (force simp: not_le [symmetric])
  then show ?thesis
    using assms(1) by (simp add: interpolate_def)
qed

lemma interpolate_first:
  assumes "dat \<noteq> []" and "w \<le> wavelength (dat ! 0)"
  shows "interpolate dat w = Some (absorption (dat ! 0))"
proof -
  have "findIndex (\<lambda>p. w \<le> wavelength p) dat = 0"
    using assms by (cases dat) (simp_all add: findIndex_def)
  then show ?thesis
    using assms(1) by (simp add: interpolate_def)
qed

lemma interpolate_between:
  assumes "0 < n" and "n < length dat" and "w \<le> wavelength (dat ! n)"
    and "\<forall>m < n. wavelength (dat ! m) < w"
  shows "interpolate dat w =
           Some (absorption (dat ! (n - 1))
                 + (w - wavelength (dat ! (n - 1))) / (wavelength (dat ! n) - wavelength (dat ! (n - 1)))
                   * (absorption (dat ! n) - absorption (dat ! (n - 1))))"
proof -
  have idx: "findIndex (\<lambda>p. w \<le> wavelength p) dat = int n"
  proof -
    from findIndex_cases [of "\<lambda>p. w \<le> wavelength p" dat]
    show ?thesis
    proof
      assume "findIndex (\<lambda>p. w \<le> wavelength p) dat = -1
              \<and> (\<forall>x \<in> set dat. \<not> w \<le> wavelength x)"
      then have "\<not> w \<le> wavelength (dat ! n)"
        using assms(2) by simp
      then show ?thesis
        using assms(3) by simp
    next
      assume "\<exists>k < length dat. findIndex (\<lambda>p. w \<le> wavelength p) dat = int k
                \<and> w \<le> wavelength (dat ! k) \<and> (\<forall>m < k. \<not> w \<le> wavelength (dat ! m))"
      then obtain k where k: "k < length dat" "findIndex (\<lambda>p. w \<le> wavelength p) dat = int k"
        "w \<le> wavelength (dat ! k)" "\<forall>m < k. \<not> w \<le> wavelength (dat ! m)"
        by blast
      have "\<not> k < n"
        using assms(4) k(3) by (auto simp: not_le)
      moreover have "\<not> n < k"
        using assms(3) k(4) by auto
      ultimately show ?thesis
        using k(2) by simp
    qed
  qed
  have "wavelength (dat ! (n - 1)) < w"
    using assms(1,4) by simp
  then have d: "wavelength (dat ! n) - wavelength (dat ! (n - 1)) \<noteq> 0"
    using assms(3) by simp
  have n1: "nat (int n - 1) = n - 1"
    by simp
  have ne: "dat \<noteq> []"
    using assms(2) by auto
  show ?thesis
    using assms(1,2) d ne
    by (simp add: interpolate_def idx js_div_def Let_def n1 del: of_nat_diff)
qed

lemma interpolate_Some:
  assumes "dat \<noteq> []"
  shows "\<exists>y. interpolate dat w = Some y"
proof -
  from findIndex_cases [of "\<lambda>p. w \<le> wavelength p" dat]
  show ?thesis
  proof
    assume "findIndex (\<lambda>p. w \<le> wavelength p) dat = -1
            \<and> (\<forall>x \<in> set dat. \<not> w \<le> wavelength x)"
    then have "\<forall>p \<in> set dat. wavelength p < w"
      by (simp add: not_le)
    from interpolate_not_found [OF assms this] show ?thesis
      by simp
  next
    assume "\<exists>n < length dat. findIndex (\<lambda>p. w \<le> wavelength p) dat = int n
              \<and> w \<le> wavelength (dat ! n) \<and> (\<forall>m < n. \<not> w \<le> wavelength (dat ! m))"
    then obtain n where n: "n < length dat" "w \<le> wavelength (dat ! n)"
      "\<forall>m < n. \<not> w \<le> wavelength (dat ! m)"
      by blast
    show ?thesis
    proof (cases "n = 0")
      case True
      with n(2) interpolate_first [OF assms] show ?thesis
        by simp
    next
      case False
      then have "0 < n"
        by simp
      moreover have "\<forall>m < n. wavelength (dat ! m) < w"
        using n(3) by (simp add: not_le)
      ultimately show ?thesis
        using interpolate_between [OF _ n(1,2)] by simp
    qed
  qed
qed

text \<open>The loop of \<open>getOverlapData\<close> queries only wavelengths \<open>w \<le> maxW\<close>, and \<open>maxW\<close> is
  at most the last wavelength of either spectrum: there \<open>findIndex\<close> finds a point, so
  the case of \<open>interpolate_not_found\<close> does not arise inside the loop.\<close>

lemma findIndex_found_up_to_last:
  assumes "dat \<noteq> []" and "w \<le> wavelength (dat ! (length dat - 1))"
  shows "0 \<le> findIndex (\<lambda>p. w \<le> wavelength p) dat"
proof -
  have "dat ! (length dat - 1) \<in> set dat"
    using assms(1) by simp
  with assms(2) have "\<not> (\<forall>x \<in> set dat. \<not> w \<le> wavelength x)"
    by blast
  with findIndex_cases [of "\<lambda>p. w \<le> wavelength p" dat]
  obtain n where "findIndex (\<lambda>p. w \<le> wavelength p) dat = int n"
    by blast
  then show ?thesis
    by simp
qed

lemma overlap_loop_done:
  "maxW < w \<Longrightarrow> overlap_loop dataA dataB maxW w common = Some common"
  by (subst overlap_loop.simps) simp

lemma overlap_loop_Some:
  assumes "dataA \<noteq> []" and "dataB \<noteq> []"
  shows "\<exists>r. overlap_loop dataA dataB maxW w common = Some r"
  using assms
proof (induction dataA dataB maxW w common rule: overlap_loop.induct)
  case (1 dataA dataB maxW w common)
  show ?case
  proof (cases "w \<le> maxW")
    case True
    from interpolate_Some [OF "1.prems"(1), of w] obtain a where a: "interpolate dataA w = Some a"
      by blast
    from interpolate_Some [OF "1.prems"(2), of w] obtain b where b: "interpolate dataB w = Some b"
      by blast
    from "1.IH" [OF True a b "1.prems"]
    obtain r where "overlap_loop dataA dataB maxW (w + step) (common @ [\<lparr>px = w, yA = a, yB = b\<rparr>]) = Some r"
      by blast
    then have "overlap_loop dataA dataB maxW w common = Some r"
      using True a b by (subst overlap_loop.simps) simp
    then show ?thesis
      by blast
  next
    case False
    then show ?thesis
      by (simp add: overlap_loop_done)
  qed
qed

lemma getOverlapData_Some: "\<exists>common. getOverlapData dataA dataB = Some common"
proof (cases "dataA = [] \<or> dataB = []")
  case True
  then show ?thesis
    by (auto simp: getOverlapData_def)
next
  case False
  then have "dataA \<noteq> []" "dataB \<noteq> []"
    by simp_all
  from overlap_loop_Some [OF this] show ?thesis
    using False by (simp add: getOverlapData_def Let_def)
qed

lemma overlap_loop_points:
  assumes "overlap_loop dataA dataB maxW w common = Some r"
  shows "\<exists>new. r = common @ new
           \<and> (\<forall>p \<in> set new. px p \<le> maxW
                  \<and> interpolate dataA (px p) = Some (yA p)
                  \<and> interpolate dataB (px p) = Some (yB p))"
  using assms
proof (induction dataA dataB maxW w common arbitrary: r rule: overlap_loop.induct)
  case (1 dataA dataB maxW w common)
  show ?case
  proof (cases "w \<le> maxW")
    case False
    then have "r = common"
      using "1.prems" by (simp add: overlap_loop_done)
    then show ?thesis
      by simp
  next
    case True
    from "1.prems" True obtain a b where a: "interpolate dataA w = Some a"
      and b: "interpolate dataB w = Some b"
      and rest: "overlap_loop dataA dataB maxW (w + step) (common @ [\<lparr>px = w, yA = a, yB = b\<rparr>]) = Some r"
      by (subst (asm) overlap_loop.simps) (auto split: option.splits)
    from "1.IH" [OF True a b rest]
    obtain new where new: "r = (common @ [\<lparr>px = w, yA = a, yB = b\<rparr>]) @ new"
      "\<forall>p \<in> set new. px p \<le> maxW
          \<and> interpolate dataA (px p) = Some (yA p)
          \<and> interpolate dataB (px p) = Some (yB p)"
      by blast
    have "r = common @ (\<lparr>px = w, yA = a, yB = b\<rparr> # new)"
      using new(1) by simp
    moreover have "\<forall>p \<in> set (\<lparr>px = w, yA = a, yB = b\<rparr> # new). px p \<le> maxW
          \<and> interpolate dataA (px p) = Some (yA p)
          \<and> interpolate dataB (px p) = Some (yB p)"
      using new(2) True a b by simp
    ultimately show ?thesis
      by blast
  qed
qed

text \<open>Every point of an alignment is an interpolation of the two spectra at a wavelength
  that is not beyond the last wavelength of either.\<close>

lemma getOverlapData_points:
  assumes "getOverlapData dataA dataB = Some common" and "p \<in> set common"
  shows "px p \<le> wavelength (dataA ! (length dataA - 1))
         \<and> px p \<le> wavelength (dataB ! (length dataB - 1))
         \<and> interpolate dataA (px p) = Some (yA p)
         \<and> interpolate dataB (px p) = Some (yB p)"
proof (cases "dataA = [] \<or> dataB = []")
  case True
  then have "common = []"
    using assms(1) by (auto simp: getOverlapData_def)
  then show ?thesis
    using assms(2) by simp
next
  case False
  let ?maxW = "min (wavelength (dataA ! (length dataA - 1))) (wavelength (dataB ! (length dataB - 1)))"
  let ?minW = "max (wavelength (dataA ! 0)) (wavelength (dataB ! 0))"
  have "overlap_loop dataA dataB ?maxW ?minW [] = Some common"
    using assms(1) False by (simp add: getOverlapData_def Let_def)
  from overlap_loop_points [OF this] assms(2)
  have "px p \<le> ?maxW \<and> interpolate dataA (px p) = Some (yA p)
          \<and> interpolate dataB (px p) = Some (yB p)"
    by auto
  then show ?thesis
    by simp
qed




lemma getOverlapData_disjoint_ends:
  assumes "dataA \<noteq> []" and "dataB \<noteq> []"
    and "min (wavelength (dataA ! (length dataA - 1))) (wavelength (dataB ! (length dataB - 1)))
         < max (wavelength (dataA ! 0)) (wavelength (dataB ! 0))"
  shows "getOverlapData dataA dataB = Some []"
proof -
  from assms(3) have "overlap_loop dataA dataB
      (min (wavelength (dataA ! (length dataA - 1))) (wavelength (dataB ! (length dataB - 1))))
      (max (wavelength (dataA ! 0)) (wavelength (dataB ! 0))) [] = Some []"
    by (rule overlap_loop_done)
  then show ?thesis
    using assms(1,2) by (simp add: getOverlapData_def Let_def)
qed

lemma sorted_Min_first:
  fixes xs :: "real list"
  assumes "sorted xs" and "xs \<noteq> []"
  shows "Min (set xs) = xs ! 0"
proof (rule Min_eqI)
  show "finite (set xs)"
    by simp
  show "xs ! 0 \<le> y" if "y \<in> set xs" for y
  proof -
    from that obtain i where "i < length xs" "y = xs ! i"
      by (auto simp: in_set_conv_nth)
    then show ?thesis
      using assms(1) by (simp add: sorted_nth_mono)
  qed
  show "xs ! 0 \<in> set xs"
    using assms(2) by simp
qed

lemma sorted_Max_last:
  fixes xs :: "real list"
  assumes "sorted xs" and "xs \<noteq> []"
  shows "Max (set xs) = xs ! (length xs - 1)"
proof (rule Max_eqI)
  show "finite (set xs)"
    by simp
  show "y \<le> xs ! (length xs - 1)" if "y \<in> set xs" for y
  proof -
    from that obtain i where "i < length xs" "y = xs ! i"
      by (auto simp: in_set_conv_nth)
    then show ?thesis
      using assms by (simp add: sorted_nth_mono)
  qed
  show "xs ! (length xs - 1) \<in> set xs"
    using assms(2) by simp
qed

lemma getOverlapData_disjoint:
  assumes "dataA \<noteq> []" and "dataB \<noteq> []"
    and "sorted (map wavelength dataA)" and "sorted (map wavelength dataB)"
    and "min (Max (set (map wavelength dataA))) (Max (set (map wavelength dataB)))
         < max (Min (set (map wavelength dataA))) (Min (set (map wavelength dataB)))"
  shows "getOverlapData dataA dataB = Some []"
proof -
  have a: "map wavelength dataA \<noteq> []" and b: "map wavelength dataB \<noteq> []"
    using assms(1,2) by simp_all
  have "Min (set (map wavelength dataA)) = wavelength (dataA ! 0)"
    "Max (set (map wavelength dataA)) = wavelength (dataA ! (length dataA - 1))"
    using sorted_Min_first [OF assms(3) a] sorted_Max_last [OF assms(3) a] assms(1)
    by simp_all
  moreover have "Min (set (map wavelength dataB)) = wavelength (dataB ! 0)"
    "Max (set (map wavelength dataB)) = wavelength (dataB ! (length dataB - 1))"
    using sorted_Min_first [OF assms(4) b] sorted_Max_last [OF assms(4) b] assms(2)
    by simp_all
  ultimately show ?thesis
    using assms(5) by (intro getOverlapData_disjoint_ends assms(1,2)) (simp only:)
qed

section \<open>Report assembly\<close>

lemma smoothedFilteredCommon_Some:
  "\<exists>sfc. smoothedFilteredCommon fc se sw = Some sfc \<and> length sfc = length fc"
proof -
  from applyMovingAverage_Some [of "map yA fc" sw] applyMovingAverage_Some [of "map yB fc" sw]
  obtain ya yb where "applyMovingAverage (map yA fc) sw = Some ya"
    "applyMovingAverage (map yB fc) sw = Some yb"
    by blast
  then show ?thesis
    by (simp add: smoothedFilteredCommon_def)
qed

lemma pair_result_eq:
  assumes "smoothedFilteredCommon fc se sw = Some sfc"
    and "calculatePearson sfc = Some pe"
    and "calculateRMSE sfc (if nm = none then area else nm) = Some rm"
    and "calculateEuclidean sfc (if nm = none then area else nm) = Some eu"
    and "calculateCosineSimilarity sfc = Some co"
    and "calculateSID sfc = Some si"
  shows "pair_result nA nB fc nm se sw =
           Some \<lparr>sampleA = nA, sampleB = nB, pearson = pe, rmse = rm,
                 euclidean = eu, cosine = co, sid = si\<rparr>"
  using assms by (simp add: pair_result_def Let_def)

lemma pair_result_fields:
  "\<exists>sfc r. smoothedFilteredCommon fc se sw = Some sfc
      \<and> pair_result nA nB fc nm se sw = Some r
      \<and> calculateRMSE sfc (if nm = none then area else nm) = Some (rmse r)
      \<and> calculateEuclidean sfc (if nm = none then area else nm) = Some (euclidean r)"
proof -
  from smoothedFilteredCommon_Some [of fc se sw]
  obtain sfc where s: "smoothedFilteredCommon fc se sw = Some sfc"
    by blast
  from calculatePearson_Some [of sfc] obtain pe where pe: "calculatePearson sfc = Some pe"
    by blast
  from calculateRMSE_Some [of sfc "if nm = none then area else nm"]
  obtain rm where rm: "calculateRMSE sfc (if nm = none then area else nm) = Some rm"
    by blast
  from calculateEuclidean_Some [of sfc "if nm = none then area else nm"]
  obtain eu where eu: "calculateEuclidean sfc (if nm = none then area else nm) = Some eu"
    by blast
  from calculateCosineSimilarity_Some [of sfc]
  obtain co where co: "calculateCosineSimilarity sfc = Some co"
    by blast
  from calculateSID_Some [of sfc] obtain si where si: "calculateSID sfc = Some si"
    by blast
  from pair_result_eq [OF s pe rm eu co si, of nA nB] s rm eu show ?thesis
    by simp
qed

text \<open>Called directly, the two distance metrics do not substitute a policy: under
  \<open>none\<close> they compare the raw values, which differs from the \<open>area\<close> result.\<close>

lemma calculateRMSE_direct_none:
  "calculateRMSE [\<lparr>px = 200, yA = 1, yB = 3\<rparr>] none = Some 2
   \<and> calculateRMSE [\<lparr>px = 200, yA = 1, yB = 3\<rparr>] area = Some 0"
  by (simp add: calculateRMSE_def normalizeValues_def js_div_def Math_sqrt_def)

text \<open>
  C2. In the report, the RMSE and the Euclidean distance of a pair are computed on the
  (optionally smoothed) surviving points under \<open>area\<close> when the selected policy is
  \<open>none\<close>, and under the selected policy itself otherwise; so the entry for \<open>none\<close> is the
  entry for \<open>area\<close>.
\<close>

theorem distance_policy_substitution:
  "\<exists>sfc r. smoothedFilteredCommon fc se sw = Some sfc
      \<and> pair_result nA nB fc nm se sw = Some r
      \<and> (nm = none \<longrightarrow> calculateRMSE sfc area = Some (rmse r)
                        \<and> calculateEuclidean sfc area = Some (euclidean r)
                        \<and> pair_result nA nB fc area se sw = Some r)
      \<and> (nm \<noteq> none \<longrightarrow> calculateRMSE sfc nm = Some (rmse r)
                        \<and> calculateEuclidean sfc nm = Some (euclidean r))"
proof -
  from pair_result_fields [of fc se sw nA nB nm]
  obtain sfc r where *: "smoothedFilteredCommon fc se sw = Some sfc"
    "pair_result nA nB fc nm se sw = Some r"
    "calculateRMSE sfc (if nm = none then area else nm) = Some (rmse r)"
    "calculateEuclidean sfc (if nm = none then area else nm) = Some (euclidean r)"
    by blast
  have "pair_result nA nB fc area se sw = pair_result nA nB fc none se sw"
    by (simp add: pair_result_def)
  with * show ?thesis
    by (cases "nm = none") auto
qed


theorem distance_policy_substitution_witness:
  "(\<exists>r. pair_result ''A'' ''B'' [\<lparr>px = 200, yA = 1, yB = 3\<rparr>, \<lparr>px = 200.5, yA = 3, yB = 1\<rparr>] none False 5 = Some r
       \<and> calculateRMSE [\<lparr>px = 200, yA = 1, yB = 3\<rparr>, \<lparr>px = 200.5, yA = 3, yB = 1\<rparr>] area = Some (rmse r)
       \<and> calculateEuclidean [\<lparr>px = 200, yA = 1, yB = 3\<rparr>, \<lparr>px = 200.5, yA = 3, yB = 1\<rparr>] area = Some (euclidean r)
       \<and> pair_result ''A'' ''B'' [\<lparr>px = 200, yA = 1, yB = 3\<rparr>, \<lparr>px = 200.5, yA = 3, yB = 1\<rparr>] area False 5 = Some r)
   \<and> (\<exists>r. pair_result ''A'' ''B'' [\<lparr>px = 200, yA = 1, yB = 3\<rparr>, \<lparr>px = 200.5, yA = 3, yB = 1\<rparr>] minmax False 5 = Some r
       \<and> calculateRMSE [\<lparr>px = 200, yA = 1, yB = 3\<rparr>, \<lparr>px = 200.5, yA = 3, yB = 1\<rparr>] minmax = Some (rmse r)
       \<and> calculateEuclidean [\<lparr>px = 200, yA = 1, yB = 3\<rparr>, \<lparr>px = 200.5, yA = 3, yB = 1\<rparr>] minmax = Some (euclidean r))"
proof -
  let ?fc = "[\<lparr>px = 200, yA = 1, yB = 3\<rparr>, \<lparr>px = 200.5, yA = 3, yB = 1\<rparr>]"
  have s: "smoothedFilteredCommon ?fc False 5 = Some ?fc"
    by (simp add: smoothedFilteredCommon_def)
  have m: "minmax \<noteq> none"
    by simp
  from distance_policy_substitution [of ?fc False 5 "''A''" "''B''" none] s
  have a: "\<exists>r. pair_result ''A'' ''B'' ?fc none False 5 = Some r
       \<and> calculateRMSE ?fc area = Some (rmse r)
       \<and> calculateEuclidean ?fc area = Some (euclidean r)
       \<and> pair_result ''A'' ''B'' ?fc area False 5 = Some r"
    by auto
  from distance_policy_substitution [of ?fc False 5 "''A''" "''B''" minmax] s m
  have b: "\<exists>r. pair_result ''A'' ''B'' ?fc minmax False 5 = Some r
       \<and> calculateRMSE ?fc minmax = Some (rmse r)
       \<and> calculateEuclidean ?fc minmax = Some (euclidean r)"
    by auto
  from a b show ?thesis
    by (rule conjI)
qed

lemma pair_step_skip:
  assumes "getOverlapData (data sA) (data sB) = Some common"
    and "filter (\<lambda>p. rangeMin \<le> px p \<and> px p \<le> min rangeMax MAX_ALLOWED_WAVELENGTH) common = []"
  shows "pair_step sA sB rangeMin rangeMax nm se sw results = Some results"
  using assms by (simp add: pair_step_def)

lemma similarityMatrix_two:
  "similarityMatrix [sA, sB] rangeMin rangeMax nm se sw
     = pair_step sA sB rangeMin rangeMax nm se sw []"
proof -
  have a: "[0..<length [sA, sB]] = [0, 1]" and b: "[0 + 1..<length [sA, sB]] = [1]"
    and c: "[1 + 1..<length [sA, sB]] = []"
    by (simp_all add: upt_rec)
  show ?thesis
    unfolding similarityMatrix_def a
    by (simp add: b c split: option.split)
qed

lemma overlap_concrete:
  "getOverlapData [\<lparr>wavelength = 200, absorption = 0.1\<rparr>, \<lparr>wavelength = 200.5, absorption = 0.3\<rparr>]
                  [\<lparr>wavelength = 200, absorption = 0.2\<rparr>, \<lparr>wavelength = 200.5, absorption = 0.4\<rparr>]
   = Some [\<lparr>px = 200, yA = 0.1, yB = 0.2\<rparr>, \<lparr>px = 200.5, yA = 0.3, yB = 0.4\<rparr>]"
  by (simp add: getOverlapData_def overlap_loop.simps interpolate_def findIndex_def step_def js_div_def)

text \<open>
  C7. Two non-empty, wavelength-sorted spectra whose domains do not overlap align to the
  empty sequence, which is a result and not an error. For every pair of samples the
  alignment returns a sequence; when none of its points survives the wavelength-range
  filter, the loop body leaves the list of results as it was, and the report of these
  two samples alone is empty.
\<close>

theorem no_overlap_no_entry:
  "(dataA \<noteq> [] \<and> dataB \<noteq> []
      \<and> sorted (map wavelength dataA) \<and> sorted (map wavelength dataB)
      \<and> min (Max (set (map wavelength dataA))) (Max (set (map wavelength dataB)))
          < max (Min (set (map wavelength dataA))) (Min (set (map wavelength dataB)))
      \<longrightarrow> getOverlapData dataA dataB = Some [])
   \<and> (\<exists>common. getOverlapData (data sA) (data sB) = Some common
         \<and> (filter (\<lambda>p. rangeMin \<le> px p \<and> px p \<le> min rangeMax MAX_ALLOWED_WAVELENGTH) common = []
              \<longrightarrow> pair_step sA sB rangeMin rangeMax nm se sw results = Some results
                  \<and> similarityMatrix [sA, sB] rangeMin rangeMax nm se sw = Some []))"
proof (intro conjI impI)
  assume "dataA \<noteq> [] \<and> dataB \<noteq> []
      \<and> sorted (map wavelength dataA) \<and> sorted (map wavelength dataB)
      \<and> min (Max (set (map wavelength dataA))) (Max (set (map wavelength dataB)))
          < max (Min (set (map wavelength dataA))) (Min (set (map wavelength dataB)))"
  then have "dataA \<noteq> []" "dataB \<noteq> []"
    "sorted (map wavelength dataA)" "sorted (map wavelength dataB)"
    "min (Max (set (map wavelength dataA))) (Max (set (map wavelength dataB)))
          < max (Min (set (map wavelength dataA))) (Min (set (map wavelength dataB)))"
    by blast+
  then show "getOverlapData dataA dataB = Some []"
    by (rule getOverlapData_disjoint)
next
  from getOverlapData_Some [of "data sA" "data sB"]
  obtain common where c: "getOverlapData (data sA) (data sB) = Some common"
    by blast
  have "pair_step sA sB rangeMin rangeMax nm se sw results = Some results
        \<and> similarityMatrix [sA, sB] rangeMin rangeMax nm se sw = Some []"
    if "filter (\<lambda>p. rangeMin \<le> px p \<and> px p \<le> min rangeMax MAX_ALLOWED_WAVELENGTH) common = []"
    using pair_step_skip [OF c that] by (simp only: similarityMatrix_two)
  with c show "\<exists>common. getOverlapData (data sA) (data sB) = Some common
         \<and> (filter (\<lambda>p. rangeMin \<le> px p \<and> px p \<le> min rangeMax MAX_ALLOWED_WAVELENGTH) common = []
              \<longrightarrow> pair_step sA sB rangeMin rangeMax nm se sw results = Some results
                  \<and> similarityMatrix [sA, sB] rangeMin rangeMax nm se sw = Some [])"
    by blast
qed

theorem no_overlap_no_entry_witness:
  "getOverlapData [\<lparr>wavelength = 200, absorption = 0.1\<rparr>, \<lparr>wavelength = 210, absorption = 0.3\<rparr>]
                  [\<lparr>wavelength = 250, absorption = 0.2\<rparr>, \<lparr>wavelength = 260, absorption = 0.4\<rparr>]
     = Some []
   \<and> pair_step
         \<lparr>id_s = ''a'', name = ''A'',
            data = [\<lparr>wavelength = 200, absorption = 0.1\<rparr>, \<lparr>wavelength = 200.5, absorption = 0.3\<rparr>],
            color = ''#2563eb''\<rparr>
         \<lparr>id_s = ''b'', name = ''B'',
            data = [\<lparr>wavelength = 200, absorption = 0.2\<rparr>, \<lparr>wavelength = 200.5, absorption = 0.4\<rparr>],
            color = ''#dc2626''\<rparr>
         250 300 none False 5 [] = Some []
   \<and> similarityMatrix
         [\<lparr>id_s = ''a'', name = ''A'',
            data = [\<lparr>wavelength = 200, absorption = 0.1\<rparr>, \<lparr>wavelength = 200.5, absorption = 0.3\<rparr>],
            color = ''#2563eb''\<rparr>,
          \<lparr>id_s = ''b'', name = ''B'',
            data = [\<lparr>wavelength = 200, absorption = 0.2\<rparr>, \<lparr>wavelength = 200.5, absorption = 0.4\<rparr>],
            color = ''#dc2626''\<rparr>]
         250 300 none False 5 = Some []"
proof -
  let ?dA = "[\<lparr>wavelength = 200, absorption = 0.1\<rparr>, \<lparr>wavelength = 210, absorption = 0.3\<rparr>]"
  let ?dB = "[\<lparr>wavelength = 250, absorption = 0.2\<rparr>, \<lparr>wavelength = 260, absorption = 0.4\<rparr>]"
  let ?sA = "\<lparr>id_s = ''a'', name = ''A'',
            data = [\<lparr>wavelength = 200, absorption = 0.1\<rparr>, \<lparr>wavelength = 200.5, absorption = 0.3\<rparr>],
            color = ''#2563eb''\<rparr>"
  let ?sB = "\<lparr>id_s = ''b'', name = ''B'',
            data = [\<lparr>wavelength = 200, absorption = 0.2\<rparr>, \<lparr>wavelength = 200.5, absorption = 0.4\<rparr>],
            color = ''#dc2626''\<rparr>"
  let ?common = "[\<lparr>px = 200, yA = 0.1, yB = 0.2\<rparr>, \<lparr>px = 200.5, yA = 0.3, yB = 0.4\<rparr>]"
  have disjoint: "?dA \<noteq> [] \<and> ?dB \<noteq> []
      \<and> sorted (map wavelength ?dA) \<and> sorted (map wavelength ?dB)
      \<and> min (Max (set (map wavelength ?dA))) (Max (set (map wavelength ?dB)))
          < max (Min (set (map wavelength ?dA))) (Min (set (map wavelength ?dB)))"
    by simp
  have aligned: "getOverlapData (data ?sA) (data ?sB) = Some ?common"
    using overlap_concrete by simp
  have filtered: "filter (\<lambda>p. 250 \<le> px p \<and> px p \<le> min 300 MAX_ALLOWED_WAVELENGTH) ?common = []"
    by (simp add: MAX_ALLOWED_WAVELENGTH_def)
  note inst = no_overlap_no_entry [of ?dA ?dB ?sA ?sB 250 300 none False 5 "[]"]
  have first: "getOverlapData ?dA ?dB = Some []"
    using inst [THEN conjunct1, THEN mp, OF disjoint] .
  from inst [THEN conjunct2]
  obtain common where c: "getOverlapData (data ?sA) (data ?sB) = Some common"
    and i: "filter (\<lambda>p. 250 \<le> px p \<and> px p \<le> min 300 MAX_ALLOWED_WAVELENGTH) common = []
              \<longrightarrow> pair_step ?sA ?sB 250 300 none False 5 [] = Some []
                  \<and> similarityMatrix [?sA, ?sB] 250 300 none False 5 = Some []"
    by (elim exE conjE)
  from c aligned have "common = ?common"
    by (simp only: option.inject)
  with i filtered have "pair_step ?sA ?sB 250 300 none False 5 [] = Some []
        \<and> similarityMatrix [?sA, ?sB] 250 300 none False 5 = Some []"
    by (simp only:)
  with first show ?thesis
    by (rule conjI)
qed

section \<open>Pearson correlation in double precision\<close>

lemma binade_numeral:
  "binade (numeral k) x =
     (if 2 \<le> x then binade (pred_numeral k) (x / 2) + 1
      else if x < 1 then binade (pred_numeral k) (2 * x) - 1
      else 0)"
  by (simp add: numeral_eq_Suc)

lemma t1: "fl (7 / 10) = Num (3152519739159347 / 4503599627370496)"
  by (simp add: fl_def binade_numeral round_half_even_def Let_def power_int_minus)

lemma round_half_even_near: "\<bar>of_int (round_half_even m) - m\<bar> \<le> 1 / 2"
  unfolding round_half_even_def Let_def by (auto; linarith)

lemma binade_bracket:
  assumes "1 / 2 ^ k \<le> x" and "x < 2 * 2 ^ k"
  shows "2 powi (binade k x) \<le> x \<and> x < 2 powi (binade k x + 1)"
  using assms
proof (induction k arbitrary: x)
  case 0
  then show ?case by simp
next
  case (Suc k)
  have small: "1 / 2 ^ k \<le> (1 :: real)"
    by simp
  have big: "(2 :: real) \<le> 2 * 2 ^ k"
    by simp
  show ?case
  proof (cases "2 \<le> x")
    case True
    have "1 / 2 ^ k \<le> x / 2"
      using True small by linarith
    moreover have "x / 2 < 2 * 2 ^ k"
      using Suc.prems(2) by simp
    ultimately have "2 powi (binade k (x / 2)) \<le> x / 2 \<and> x / 2 < 2 powi (binade k (x / 2) + 1)"
      by (rule Suc.IH)
    then show ?thesis
      using True by (simp add: power_int_add field_simps)
  next
    case False
    show ?thesis
    proof (cases "x < 1")
      case True
      have "1 / 2 ^ k \<le> 2 * x"
        using Suc.prems(1) by (simp add: field_simps)
      moreover have "2 * x < 2 * 2 ^ k"
        using True big by linarith
      ultimately have "2 powi (binade k (2 * x)) \<le> 2 * x \<and> 2 * x < 2 powi (binade k (2 * x) + 1)"
        by (rule Suc.IH)
      then show ?thesis
        using True False by (simp add: power_int_diff power_int_add field_simps)
    next
      case False
      with \<open>\<not> 2 \<le> x\<close> show ?thesis
        by simp
    qed
  qed
qed

lemma fl_examples:
  "fl (1 / 3) = Num (6004799503160661 / 18014398509481984)
   \<and> fl (3602879701896397 / 36028797018963968 + 3602879701896397 / 18014398509481984)
       = Num (1351079888211149 / 4503599627370496)
   \<and> fl (1 + 1 / 2 ^ 53) = Num 1
   \<and> fl (1 + 1 / 2 ^ 52 + 1 / 2 ^ 53) = Num (1 + 1 / 2 ^ 51)
   \<and> fl (- (1 + 1 / 2 ^ 53)) = Num (- 1)"
  by (simp add: fl_def binade_numeral round_half_even_def Let_def power_int_minus)

text \<open>The roundings that occur when \<open>calculatePearson\<close> runs on the flat series below, each
  evaluated on its own.\<close>

lemma fl_step_0: "fl (- (25 / 281474976710656)) = Num (- (25 / 281474976710656))"
  by (simp add: fl_def binade_numeral round_half_even_def Let_def power_int_minus)

lemma fl_step_1: "fl (- (1 / 562949953421312)) = Num (- (1 / 562949953421312))"
  by (simp add: fl_def binade_numeral round_half_even_def Let_def power_int_minus)

lemma fl_step_2: "fl 0 = Num 0"
  by (simp add: fl_def binade_numeral round_half_even_def Let_def power_int_minus)

lemma fl_step_3: "fl (8827055269646171 / 18014398509481984) = Num (8827055269646171 / 18014398509481984)"
  by (simp add: fl_def binade_numeral round_half_even_def Let_def power_int_minus)

lemma fl_step_4: "fl (9938380705789317246726257466409 / 20282409603651670423947251286016) = Num (8827055269646171 / 18014398509481984)"
  by (simp add: fl_def binade_numeral round_half_even_def Let_def power_int_minus)

lemma fl_step_5: "fl (3152519739159347 / 4503599627370496) = Num (3152519739159347 / 4503599627370496)"
  by (simp add: fl_def binade_numeral round_half_even_def Let_def power_int_minus)

lemma fl_step_6: "fl (8827055269646171 / 9007199254740992) = Num (8827055269646171 / 9007199254740992)"
  by (simp add: fl_def binade_numeral round_half_even_def Let_def power_int_minus)

lemma fl_step_7: "fl (1) = Num (1)"
  by (simp add: fl_def binade_numeral round_half_even_def Let_def power_int_minus)

lemma fl_step_8: "fl (3152519739159347 / 2251799813685248) = Num (3152519739159347 / 2251799813685248)"
  by (simp add: fl_def binade_numeral round_half_even_def Let_def power_int_minus)

lemma fl_step_9: "fl (26481165808938513 / 18014398509481984) = Num (1655072863058657 / 1125899906842624)"
  by (simp add: fl_def binade_numeral round_half_even_def Let_def power_int_minus)

lemma fl_step_10: "fl (35308221078584683 / 18014398509481984) = Num (8827055269646171 / 4503599627370496)"
  by (simp add: fl_def binade_numeral round_half_even_def Let_def power_int_minus)

lemma fl_step_11: "fl (9457559217478041 / 4503599627370496) = Num (1182194902184755 / 562949953421312)"
  by (simp add: fl_def binade_numeral round_half_even_def Let_def power_int_minus)

lemma fl_step_12: "fl (44135276348230855 / 18014398509481984) = Num (5516909543528857 / 2251799813685248)"
  by (simp add: fl_def binade_numeral round_half_even_def Let_def power_int_minus)

lemma fl_step_13: "fl (12610078956637387 / 4503599627370496) = Num (3152519739159347 / 1125899906842624)"
  by (simp add: fl_def binade_numeral round_half_even_def Let_def power_int_minus)

lemma fl_step_14: "fl (3152519739159347 / 1125899906842624) = Num (3152519739159347 / 1125899906842624)"
  by (simp add: fl_def binade_numeral round_half_even_def Let_def power_int_minus)

lemma fl_step_15: "fl (3) = Num (3)"
  by (simp add: fl_def binade_numeral round_half_even_def Let_def power_int_minus)

lemma fl_step_16: "fl (15762598695796735 / 4503599627370496) = Num (7 / 2)"
  by (simp add: fl_def binade_numeral round_half_even_def Let_def power_int_minus)

lemma fl_step_17: "fl (4) = Num (4)"
  by (simp add: fl_def binade_numeral round_half_even_def Let_def power_int_minus)

lemma fl_step_18: "fl (1182194902184755 / 281474976710656) = Num (1182194902184755 / 281474976710656)"
  by (simp add: fl_def binade_numeral round_half_even_def Let_def power_int_minus)

lemma fl_step_19: "fl (5) = Num (5)"
  by (simp add: fl_def binade_numeral round_half_even_def Let_def power_int_minus)

lemma fl_step_20: "fl (6) = Num (6)"
  by (simp add: fl_def binade_numeral round_half_even_def Let_def power_int_minus)

lemma fl_step_21: "fl (7881299347898367 / 1125899906842624) = Num (7881299347898367 / 1125899906842624)"
  by (simp add: fl_def binade_numeral round_half_even_def Let_def power_int_minus)

lemma fl_step_22: "fl (9) = Num (9)"
  by (simp add: fl_def binade_numeral round_half_even_def Let_def power_int_minus)

lemma fl_step_23: "fl (10) = Num (10)"
  by (simp add: fl_def binade_numeral round_half_even_def Let_def power_int_minus)

lemma fl_step_24: "fl (11821949021847551 / 1125899906842624) = Num (21 / 2)"
  by (simp add: fl_def binade_numeral round_half_even_def Let_def power_int_minus)

lemma fl_step_25: "fl (27584547717644285 / 2251799813685248) = Num (6896136929411071 / 562949953421312)"
  by (simp add: fl_def binade_numeral round_half_even_def Let_def power_int_minus)

lemma fl_step_26: "fl (49 / 4) = Num (49 / 4)"
  by (simp add: fl_def binade_numeral round_half_even_def Let_def power_int_minus)

lemma fl_step_27: "fl (14) = Num (14)"
  by (simp add: fl_def binade_numeral round_half_even_def Let_def power_int_minus)

lemma fl_step_28: "fl (15) = Num (15)"
  by (simp add: fl_def binade_numeral round_half_even_def Let_def power_int_minus)

lemma fl_step_29: "fl (16) = Num (16)"
  by (simp add: fl_def binade_numeral round_half_even_def Let_def power_int_minus)

lemma fl_step_30: "fl (25) = Num (25)"
  by (simp add: fl_def binade_numeral round_half_even_def Let_def power_int_minus)

lemma fl_step_31: "fl (30) = Num (30)"
  by (simp add: fl_def binade_numeral round_half_even_def Let_def power_int_minus)

lemma fl_step_32: "fl (50) = Num (50)"
  by (simp add: fl_def binade_numeral round_half_even_def Let_def power_int_minus)

lemma fl_step_33: "fl (105 / 2) = Num (105 / 2)"
  by (simp add: fl_def binade_numeral round_half_even_def Let_def power_int_minus)

lemma fl_step_34: "fl (55) = Num (55)"
  by (simp add: fl_def binade_numeral round_half_even_def Let_def power_int_minus)

lemma fl_step_35: "fl (225) = Num (225)"
  by (simp add: fl_def binade_numeral round_half_even_def Let_def power_int_minus)

lemma fl_step_36: "fl (275) = Num (275)"
  by (simp add: fl_def binade_numeral round_half_even_def Let_def power_int_minus)

lemmas fl_steps = fl_step_0 fl_step_1 fl_step_2 fl_step_3 fl_step_4 fl_step_5 fl_step_6 fl_step_7 fl_step_8 fl_step_9 fl_step_10 fl_step_11 fl_step_12 fl_step_13 fl_step_14 fl_step_15 fl_step_16 fl_step_17 fl_step_18 fl_step_19 fl_step_20 fl_step_21 fl_step_22 fl_step_23 fl_step_24 fl_step_25 fl_step_26 fl_step_27 fl_step_28 fl_step_29 fl_step_30 fl_step_31 fl_step_32 fl_step_33 fl_step_34 fl_step_35 fl_step_36

text \<open>
  C3. The metrics are claimed to return finite numbers only, with the fallback 0 for a
  series of zero variance. In exact arithmetic every guard suffices (the lemmas of the
  section on totality). In the doubles the code computes with, \<open>calculatePearson\<close> returns
  \<open>NaN\<close> for the flat series \<open>yA = 0.7\<close> (five points) against \<open>yB = 1, 2, 3, 4, 5\<close>:
  \<open>n * sumASq\<close> rounds to a double below \<open>sumA * sumA\<close>, so the radicand is negative,
  \<open>Math.sqrt\<close> returns \<open>NaN\<close>, and the guard \<open>den === 0\<close> does not catch it. The first
  conjunct says that the double written \<open>0.7\<close> is the number used; the last is the value
  in exact arithmetic.
\<close>

theorem calculatePearson_double_flat_series:
  "fl (7 / 10) = Num (3152519739159347 / 4503599627370496)
   \<and> calculatePearson_double
         [\<lparr>px = 200, yA = 3152519739159347 / 4503599627370496, yB = 1\<rparr>,
          \<lparr>px = 200.5, yA = 3152519739159347 / 4503599627370496, yB = 2\<rparr>,
          \<lparr>px = 201, yA = 3152519739159347 / 4503599627370496, yB = 3\<rparr>,
          \<lparr>px = 201.5, yA = 3152519739159347 / 4503599627370496, yB = 4\<rparr>,
          \<lparr>px = 202, yA = 3152519739159347 / 4503599627370496, yB = 5\<rparr>] = NaN
   \<and> calculatePearson
         [\<lparr>px = 200, yA = 3152519739159347 / 4503599627370496, yB = 1\<rparr>,
          \<lparr>px = 200.5, yA = 3152519739159347 / 4503599627370496, yB = 2\<rparr>,
          \<lparr>px = 201, yA = 3152519739159347 / 4503599627370496, yB = 3\<rparr>,
          \<lparr>px = 201.5, yA = 3152519739159347 / 4503599627370496, yB = 4\<rparr>,
          \<lparr>px = 202, yA = 3152519739159347 / 4503599627370496, yB = 5\<rparr>] = Some 0"
proof (intro conjI)
  show "fl (7 / 10) = Num (3152519739159347 / 4503599627370496)"
    by (simp add: fl_def binade_numeral round_half_even_def Let_def power_int_minus)
  show "calculatePearson_double
         [\<lparr>px = 200, yA = 3152519739159347 / 4503599627370496, yB = 1\<rparr>,
          \<lparr>px = 200.5, yA = 3152519739159347 / 4503599627370496, yB = 2\<rparr>,
          \<lparr>px = 201, yA = 3152519739159347 / 4503599627370496, yB = 3\<rparr>,
          \<lparr>px = 201.5, yA = 3152519739159347 / 4503599627370496, yB = 4\<rparr>,
          \<lparr>px = 202, yA = 3152519739159347 / 4503599627370496, yB = 5\<rparr>] = NaN"
    by (simp add: calculatePearson_double_def Let_def fl_steps)
  show "calculatePearson
         [\<lparr>px = 200, yA = 3152519739159347 / 4503599627370496, yB = 1\<rparr>,
          \<lparr>px = 200.5, yA = 3152519739159347 / 4503599627370496, yB = 2\<rparr>,
          \<lparr>px = 201, yA = 3152519739159347 / 4503599627370496, yB = 3\<rparr>,
          \<lparr>px = 201.5, yA = 3152519739159347 / 4503599627370496, yB = 4\<rparr>,
          \<lparr>px = 202, yA = 3152519739159347 / 4503599627370496, yB = 5\<rparr>] = Some 0"
    by (simp add: calculatePearson_def Math_sqrt_def)
qed

end
